theory Spec2Isabelle
  imports Main "HOL-Library.Word"
begin

unbundle bit_operations_syntax

section \<open>Data model of MORISWITCH_V2.ino\<close>

text \<open>
  The sketch is a six-switch, four-bank MIDI foot controller. Its global variables are
  gathered in one record that every function takes and returns. The fixed-size C arrays
  (\<open>cfg[4][6]\<close>, \<open>togState[4][6]\<close>, the per-switch arrays of length 6 and the EEPROM
  cells) are total functions of the index; the sketch only ever indexes them with
  \<open>b < 4\<close>, \<open>s < 6\<close>, \<open>i < 6\<close> and EEPROM addresses below 220. \<open>uint8_t\<close> is
  \<open>8 word\<close>, \<open>unsigned long\<close> (the \<open>millis()\<close> clock) is \<open>32 word\<close>, so that
  \<open>now - lastChangeMs[i]\<close> wraps as it does on the device. The LCD is a write-only
  sink with no influence on any other state and is left out; the MIDI port and the
  serial port are output logs.
\<close>

type_synonym u8 = "8 word"
type_synonym u32 = "32 word"

definition NUM_SW :: nat where
  [simp]: "NUM_SW = 6"

definition NUM_BANKS :: nat where
  [simp]: "NUM_BANKS = 4"

datatype ActionType =
  ACT_NONE | ACT_CC | ACT_PC | ACT_BANK_UP | ACT_BANK_DOWN | ACT_CC_TOGGLE | ACT_CC_ONE_SHOT

text \<open>The numeric value of each enumerator, and the reading of a stored byte as one.\<close>

fun ActionType_val :: "ActionType \<Rightarrow> u8" where
  "ActionType_val ACT_NONE = 0"
| "ActionType_val ACT_CC = 1"
| "ActionType_val ACT_PC = 2"
| "ActionType_val ACT_BANK_UP = 3"
| "ActionType_val ACT_BANK_DOWN = 4"
| "ActionType_val ACT_CC_TOGGLE = 5"
| "ActionType_val ACT_CC_ONE_SHOT = 6"

definition ActionType_of :: "u8 \<Rightarrow> ActionType option" where
  "ActionType_of t =
     (if t = 0 then Some ACT_NONE
      else if t = 1 then Some ACT_CC
      else if t = 2 then Some ACT_PC
      else if t = 3 then Some ACT_BANK_UP
      else if t = 4 then Some ACT_BANK_DOWN
      else if t = 5 then Some ACT_CC_TOGGLE
      else if t = 6 then Some ACT_CC_ONE_SHOT
      else None)"

text \<open>
  \<open>struct Slot\<close>. The label is \<open>label[0..3]\<close>; \<open>label[4]\<close> is the terminator that every
  writer of the sketch sets to NUL, so it is not stored.
\<close>

record Slot =
  label :: string
  type :: u8
  ch :: u8
  num :: u8
  vPress :: u8
  vRelease :: u8

datatype midi_msg =
  ControlChange u8 u8 u8    \<comment> \<open>channel, controller number, value\<close>
| ProgramChange u8 u8       \<comment> \<open>channel, program number\<close>

text \<open>
  The calls that the switch logic makes: \<open>handleSwitchEvent(i, pressed)\<close> for an
  individual switch, and the two chord gestures.
\<close>

datatype event =
  SwitchEvent nat bool
| ChordBankDown
| ChordBankUp

record state =
  cfg :: "nat \<Rightarrow> nat \<Rightarrow> Slot"
  togState :: "nat \<Rightarrow> nat \<Rightarrow> bool"
  currentBank :: u8
  chord45Latched :: bool
  chord56Latched :: bool
  pendingPress :: "nat \<Rightarrow> bool"
  pendingAt :: "nat \<Rightarrow> u32"
  sentPress :: "nat \<Rightarrow> bool"
  rawState :: "nat \<Rightarrow> bool"
  stableState :: "nat \<Rightarrow> bool"
  lastRaw :: "nat \<Rightarrow> bool"
  lastChangeMs :: "nat \<Rightarrow> u32"
  lineBuf :: string           \<comment> \<open>the characters \<open>lineBuf[0..lineLen)\<close>\<close>
  eeprom :: "nat \<Rightarrow> u8"
  serial_out :: "string list" \<comment> \<open>lines printed on \<open>Serial\<close>\<close>
  midi_out :: "midi_msg list"
  events :: "event list"

text \<open>
  The entries that the per-switch arrays hold for one switch, gathered in a record; the
  proofs about the poll loop read them off the state with \<open>sw_of\<close>.
\<close>

record sw_rt =
  stable :: bool
  last_raw :: bool
  last_change :: u32
  pending :: bool
  pending_at :: u32
  sent :: bool

section \<open>EEPROM layout\<close>

definition byte_of_char :: "char \<Rightarrow> u8" where
  "byte_of_char c = of_nat (of_char c)"

definition char_of_byte :: "u8 \<Rightarrow> char" where
  "char_of_byte w = char_of (unat w)"

definition EEPROM_MAGIC_ADDR :: nat where
  [simp]: "EEPROM_MAGIC_ADDR = 0"

definition EEPROM_DATA_ADDR :: nat where
  [simp]: "EEPROM_DATA_ADDR = 4"

definition EEPROM_MAGIC :: u32 where
  "EEPROM_MAGIC = 0x4D434646"

text \<open>
  \<open>EEPROM.put\<close> and \<open>EEPROM.get\<close> on a \<open>uint32_t\<close> copy the four bytes of the object,
  least significant byte first on the little-endian targets of the Arduino core.
\<close>

definition EEPROM_put32 :: "nat \<Rightarrow> u32 \<Rightarrow> (nat \<Rightarrow> u8) \<Rightarrow> (nat \<Rightarrow> u8)" where
  "EEPROM_put32 a v e =
     e(a := ucast v,
       a + 1 := ucast (drop_bit 8 v),
       a + 2 := ucast (drop_bit 16 v),
       a + 3 := ucast (drop_bit 24 v))"

definition EEPROM_get32 :: "nat \<Rightarrow> (nat \<Rightarrow> u8) \<Rightarrow> u32" where
  "EEPROM_get32 a e =
     ucast (e a) OR push_bit 8 (ucast (e (a + 1)))
       OR push_bit 16 (ucast (e (a + 2))) OR push_bit 24 (ucast (e (a + 3)))"

text \<open>
  \<open>slotAddr\<close>: \<open>4 + (bankIdx * NUM_SW + swIdx) * 9\<close> in \<open>uint16_t\<close>. For all \<open>uint8_t\<close>
  arguments the value is at most 16069, so the 16-bit arithmetic never wraps.
\<close>

definition slotAddr :: "nat \<Rightarrow> nat \<Rightarrow> nat" where
  "slotAddr bankIdx swIdx = EEPROM_DATA_ADDR + (bankIdx * NUM_SW + swIdx) * 9"

definition eepromWriteSlot :: "nat \<Rightarrow> nat \<Rightarrow> Slot \<Rightarrow> (nat \<Rightarrow> u8) \<Rightarrow> (nat \<Rightarrow> u8)" where
  "eepromWriteSlot bankIdx swIdx s e =
     (let a = slotAddr bankIdx swIdx in
      e(a + 0 := byte_of_char (label s ! 0),
        a + 1 := byte_of_char (label s ! 1),
        a + 2 := byte_of_char (label s ! 2),
        a + 3 := byte_of_char (label s ! 3),
        a + 4 := type s,
        a + 5 := ch s,
        a + 6 := num s,
        a + 7 := vPress s,
        a + 8 := vRelease s))"

text \<open>The label loop of \<open>eepromReadSlot\<close>: an erased cell (0xFF) or a NUL becomes a space.\<close>

definition sanitize_label_char :: "char \<Rightarrow> char" where
  "sanitize_label_char c = (if c = CHR 0xFF \<or> c = CHR 0x00 then CHR '' '' else c)"

definition eepromReadSlot :: "nat \<Rightarrow> nat \<Rightarrow> (nat \<Rightarrow> u8) \<Rightarrow> Slot" where
  "eepromReadSlot bankIdx swIdx e =
     (let a = slotAddr bankIdx swIdx;
          lab = [char_of_byte (e (a + 0)), char_of_byte (e (a + 1)),
                 char_of_byte (e (a + 2)), char_of_byte (e (a + 3))];
          t = e (a + 4);
          c = e (a + 5);
          n = e (a + 6);
          vp = e (a + 7);
          vr = e (a + 8);
          c' = (if c < 1 \<or> c > 16 then 1 else c);
          t' = (if t > ActionType_val ACT_CC_ONE_SHOT then ActionType_val ACT_NONE else t)
      in \<lparr> label = map sanitize_label_char lab, type = t', ch = c', num = n,
           vPress = vp, vRelease = vr \<rparr>)"

text \<open>
  The nested loops \<open>for b < NUM_BANKS\<close>, \<open>for s < NUM_SW\<close> visit the slots in bank-major
  order.
\<close>

definition slot_indices :: "(nat \<times> nat) list" where
  "slot_indices = List.product [0..<NUM_BANKS] [0..<NUM_SW]"

definition println :: "string \<Rightarrow> state \<Rightarrow> state" where
  "println l s = s\<lparr>serial_out := serial_out s @ [l]\<rparr>"

definition saveAllToEEPROM :: "state \<Rightarrow> state" where
  "saveAllToEEPROM s =
     println ''OK,SAVED''
       (s\<lparr>eeprom :=
           fold (\<lambda>(b, sw) e. eepromWriteSlot b sw (cfg s b sw) e) slot_indices
             (EEPROM_put32 EEPROM_MAGIC_ADDR EEPROM_MAGIC (eeprom s))\<rparr>)"

text \<open>\<open>loadAllFromEEPROM\<close> returns the success flag together with the new state.\<close>

definition loadAllFromEEPROM :: "state \<Rightarrow> bool \<times> state" where
  "loadAllFromEEPROM s =
     (if EEPROM_get32 EEPROM_MAGIC_ADDR (eeprom s) \<noteq> EEPROM_MAGIC then (False, s)
      else (True,
        println ''OK,LOADED''
          (s\<lparr>cfg :=
              fold (\<lambda>(b, sw) c. c(b := (c b)(sw := eepromReadSlot b sw (eeprom s))))
                slot_indices (cfg s)\<rparr>)))"

section \<open>Default configuration\<close>

definition default_slot :: Slot where
  "default_slot =
     \<lparr> label = ''----'', type = ActionType_val ACT_NONE, ch = 1, num = 0,
       vPress = 127, vRelease = 0 \<rparr>"

definition setDefaultConfig :: "state \<Rightarrow> state" where
  "setDefaultConfig s =
     (let s1 = fold (\<lambda>(b, sw) s.
                 s\<lparr>cfg := (cfg s)(b := (cfg s b)(sw := default_slot)),
                   togState := (togState s)(b := (togState s b)(sw := False))\<rparr>)
               slot_indices s
      in fold (\<lambda>b s.
            s\<lparr>cfg := (cfg s)(b := (cfg s b)
                 (4 := (cfg s b 4)\<lparr>type := ActionType_val ACT_BANK_DOWN, label := ''DWN ''\<rparr>,
                  5 := (cfg s b 5)\<lparr>type := ActionType_val ACT_BANK_UP, label := ''UP  ''\<rparr>))\<rparr>)
          [0..<NUM_BANKS] s1)"

section \<open>Executing an action\<close>

definition sendCC :: "u8 \<Rightarrow> u8 \<Rightarrow> u8 \<Rightarrow> state \<Rightarrow> state" where
  "sendCC c cc val s = s\<lparr>midi_out := midi_out s @ [ControlChange c cc val]\<rparr>"

definition sendPC :: "u8 \<Rightarrow> u8 \<Rightarrow> state \<Rightarrow> state" where
  "sendPC c pc s = s\<lparr>midi_out := midi_out s @ [ProgramChange c pc]\<rparr>"

definition doBankUp :: "state \<Rightarrow> state" where
  "doBankUp s =
     (let cb = currentBank s + 1
      in s\<lparr>currentBank := (if cb > of_nat NUM_BANKS then 1 else cb)\<rparr>)"

definition doBankDown :: "state \<Rightarrow> state" where
  "doBankDown s =
     (if currentBank s \<le> 1 then s\<lparr>currentBank := of_nat NUM_BANKS\<rparr>
      else s\<lparr>currentBank := currentBank s - 1\<rparr>)"

text \<open>
  \<open>handleSwitchEvent\<close>. The call itself is recorded in \<open>events\<close> before the action of
  the active bank's slot is carried out; a type byte outside the enumeration takes the
  \<open>default:\<close> branch.
\<close>

definition handleSwitchEvent :: "nat \<Rightarrow> bool \<Rightarrow> state \<Rightarrow> state" where
  "handleSwitchEvent swIdx pressed s0 =
     (let s = s0\<lparr>events := events s0 @ [SwitchEvent swIdx pressed]\<rparr>;
          b = unat (currentBank s - 1);
          sl = cfg s b swIdx
      in case ActionType_of (type sl) of
           None \<Rightarrow> s
         | Some ACT_NONE \<Rightarrow> s
         | Some ACT_BANK_UP \<Rightarrow> (if pressed then doBankUp s else s)
         | Some ACT_BANK_DOWN \<Rightarrow> (if pressed then doBankDown s else s)
         | Some ACT_PC \<Rightarrow> (if pressed then sendPC (ch sl) (num sl) s else s)
         | Some ACT_CC \<Rightarrow> sendCC (ch sl) (num sl) (if pressed then vPress sl else vRelease sl) s
         | Some ACT_CC_TOGGLE \<Rightarrow>
             (if pressed then
                (let s1 = s\<lparr>togState := (togState s)(b := (togState s b)(swIdx := \<not> togState s b swIdx))\<rparr>;
                     val = (if togState s1 b swIdx then vPress sl else 0)
                 in sendCC (ch sl) (num sl) val s1)
              else s)
         | Some ACT_CC_ONE_SHOT \<Rightarrow> (if pressed then sendCC (ch sl) (num sl) (vPress sl) s else s))"

section \<open>Serial protocol\<close>

text \<open>
  \<open>nextTok\<close> works on the rest \<open>p\<close> of the line (\<open>None\<close> is the null pointer): it cuts
  at the first comma, strips leading and trailing spaces, and returns the token together
  with the new \<open>p\<close>.
\<close>

definition trim_spaces :: "string \<Rightarrow> string" where
  "trim_spaces start =
     rev (dropWhile (\<lambda>c. c = CHR '' '') (rev (dropWhile (\<lambda>c. c = CHR '' '') start)))"

definition nextTok :: "string option \<Rightarrow> string option \<times> string option" where
  "nextTok p =
     (case p of
        None \<Rightarrow> (None, None)
      | Some str \<Rightarrow>
          (if CHR '','' \<in> set str
           then (Some (trim_spaces (takeWhile (\<lambda>c. c \<noteq> CHR '','') str)),
                 Some (tl (dropWhile (\<lambda>c. c \<noteq> CHR '','') str)))
           else (Some (trim_spaces str), None)))"

text \<open>
  \<open>Print::print\<close> of an unsigned number: its decimal digits, without leading zeros.
\<close>

fun print_dec :: "nat \<Rightarrow> string" where
  "print_dec n =
     (if n < 10 then [char_of (48 + n)]
      else print_dec (n div 10) @ [char_of (48 + n mod 10)])"

declare print_dec.simps [simp del]

text \<open>\<open>Serial.print\<close> of a \<open>char*\<close> stops at the first NUL.\<close>

definition cstr :: "string \<Rightarrow> string" where
  "cstr buf = takeWhile (\<lambda>c. c \<noteq> CHR 0x00) buf"

definition dump_line :: "nat \<Rightarrow> nat \<Rightarrow> Slot \<Rightarrow> string" where
  "dump_line b sw sl =
     ''SET,'' @ print_dec (b + 1) @ '','' @ print_dec (sw + 1) @ '','' @ cstr (label sl) @ '',''
       @ print_dec (unat (type sl)) @ '','' @ print_dec (unat (ch sl)) @ '',''
       @ print_dec (unat (num sl)) @ '','' @ print_dec (unat (vPress sl)) @ '',''
       @ print_dec (unat (vRelease sl))"

definition dumpConfig :: "state \<Rightarrow> state" where
  "dumpConfig s =
     println ''OK,DUMP_DONE''
       (s\<lparr>serial_out := serial_out s @ map (\<lambda>(b, sw). dump_line b sw (cfg s b sw)) slot_indices\<rparr>)"

text \<open>
  \<open>applySetLine\<close>. The C library's \<open>atoi\<close> is a parameter: the sketch only compares
  and clamps its results, so any \<open>int\<close> width is covered by an \<open>int\<close>-valued function.
\<close>

definition clamp_int :: "int \<Rightarrow> int \<Rightarrow> int \<Rightarrow> int" where
  "clamp_int lo hi x = (let y = (if x < lo then lo else x) in if y > hi then hi else y)"

definition set_label :: "string \<Rightarrow> string" where
  "set_label tLab =
     map (\<lambda>i. let c = (if i < length tLab then tLab ! i else CHR '' '')
              in if c = CHR ''_'' then CHR '' '' else c) [0..<4]"

definition applySetLine :: "(string \<Rightarrow> int) \<Rightarrow> string \<Rightarrow> state \<Rightarrow> state" where
  "applySetLine atoi line s =
     (let p = Some (drop 4 line);
          (tBank, p) = nextTok p;
          (tSw, p) = nextTok p;
          (tLab, p) = nextTok p;
          (tType, p) = nextTok p;
          (tCh, p) = nextTok p;
          (tNum, p) = nextTok p;
          (tVP, p) = nextTok p;
          (tVR, p) = nextTok p
      in if tBank = None \<or> tSw = None \<or> tLab = None \<or> tType = None \<or> tCh = None
            \<or> tNum = None \<or> tVP = None \<or> tVR = None
         then println ''ERR,BAD_SET_FORMAT'' s
         else
           (let bank = atoi (the tBank);
                sw = atoi (the tSw);
                ty = atoi (the tType);
                c = atoi (the tCh);
                n = atoi (the tNum);
                vp = atoi (the tVP);
                vr = atoi (the tVR)
            in if bank < 1 \<or> bank > int NUM_BANKS \<or> sw < 1 \<or> sw > int NUM_SW
               then println ''ERR,BAD_INDEX'' s
               else
                 (let b = nat (bank - 1);
                      sx = nat (sw - 1);
                      ty' = (if ty < 0 \<or> ty > uint (ActionType_val ACT_CC_ONE_SHOT)
                             then uint (ActionType_val ACT_NONE) else ty);
                      sl = \<lparr> label = set_label (the tLab),
                             type = of_int ty',
                             ch = of_int (clamp_int 1 16 c),
                             num = of_int (clamp_int 0 127 n),
                             vPress = of_int (clamp_int 0 127 vp),
                             vRelease = of_int (clamp_int 0 127 vr) \<rparr>
                  in println ''OK,SET''
                       (s\<lparr>cfg := (cfg s)(b := (cfg s b)(sx := sl)),
                          togState := (togState s)(b := (togState s b)(sx := False))\<rparr>))))"

definition processSerialLine :: "(string \<Rightarrow> int) \<Rightarrow> string \<Rightarrow> state \<Rightarrow> state" where
  "processSerialLine atoi line s =
     (if line = [] then s
      else if take 4 line = ''SET,'' then applySetLine atoi line s
      else if line = ''SAVE'' then saveAllToEEPROM s
      else if line = ''LOAD'' then
        (case loadAllFromEEPROM s of
           (False, s') \<Rightarrow> println ''ERR,NO_EEPROM_CONFIG'' s'
         | (True, s') \<Rightarrow> s')
      else if line = ''DUMP'' then dumpConfig s
      else println ''ERR,UNKNOWN_CMD'' s)"

text \<open>
  One received character (the body of \<open>while (Serial.available())\<close>). \<open>lineBuf\<close> has
  220 cells; the line handed to \<open>processSerialLine\<close> is the C string in the buffer, which
  ends at the first NUL.
\<close>

definition sizeof_lineBuf :: nat where
  [simp]: "sizeof_lineBuf = 220"

definition serial_char :: "(string \<Rightarrow> int) \<Rightarrow> char \<Rightarrow> state \<Rightarrow> state" where
  "serial_char atoi c s =
     (if c = CHR 0x0A then
        (let buf = (if length (lineBuf s) \<ge> sizeof_lineBuf
                    then take (sizeof_lineBuf - 1) (lineBuf s) else lineBuf s);
             buf' = (if length buf > 0 \<and> last buf = CHR 0x0D then butlast buf else buf)
         in (processSerialLine atoi (cstr buf') s)\<lparr>lineBuf := []\<rparr>)
      else if length (lineBuf s) < sizeof_lineBuf - 1
        then s\<lparr>lineBuf := lineBuf s @ [c]\<rparr>
        else println ''ERR,LINE_TOO_LONG'' (s\<lparr>lineBuf := []\<rparr>))"

section \<open>Setup and the poll loop\<close>

text \<open>
  What one pass of \<open>loop()\<close> reads from outside: the characters waiting on the serial
  port, the clock, and for every switch whether its contact is closed.
\<close>

record poll =
  rx :: string
  now :: u32
  closed :: "nat \<Rightarrow> bool"

definition zero_slot :: Slot where
  "zero_slot = \<lparr> label = replicate 4 (CHR 0x00), type = 0, ch = 0, num = 0, vPress = 0, vRelease = 0 \<rparr>"

text \<open>
  \<open>setup_sketch\<close> is the sketch's \<open>setup()\<close>: it starts from the zero-initialised globals (\<open>currentBank = 1\<close>), reads the
  switches once, installs the default configuration and overwrites it with the stored
  one when the EEPROM carries the marker.
\<close>

definition power_on :: "(nat \<Rightarrow> u8) \<Rightarrow> state" where
  "power_on e =
     \<lparr> cfg = (\<lambda>b sw. zero_slot), togState = (\<lambda>b sw. False), currentBank = 1,
       chord45Latched = False, chord56Latched = False,
       pendingPress = (\<lambda>i. False), pendingAt = (\<lambda>i. 0), sentPress = (\<lambda>i. False),
       rawState = (\<lambda>i. False), stableState = (\<lambda>i. False), lastRaw = (\<lambda>i. False),
       lastChangeMs = (\<lambda>i. 0), lineBuf = [], eeprom = e, serial_out = [], midi_out = [],
       events = [] \<rparr>"

definition setup_sketch :: "u32 \<Rightarrow> (nat \<Rightarrow> bool) \<Rightarrow> (nat \<Rightarrow> u8) \<Rightarrow> state" where
  "setup_sketch t pins e =
     (let s1 = fold (\<lambda>i s.
                 s\<lparr>rawState := (rawState s)(i := pins i),
                   stableState := (stableState s)(i := pins i),
                   lastRaw := (lastRaw s)(i := pins i),
                   lastChangeMs := (lastChangeMs s)(i := t)\<rparr>)
               [0..<NUM_SW] (power_on e);
          s2 = setDefaultConfig s1;
          s3 = snd (loadAllFromEEPROM s2)
      in println ''OK,READY'' s3)"

definition DEBOUNCE_MS :: u32 where
  [simp]: "DEBOUNCE_MS = 35"

definition CHORD_WINDOW_MS :: u32 where
  [simp]: "CHORD_WINDOW_MS = 120"

text \<open>The body of the debounce loop for switch \<open>i\<close>, with the sample \<open>r\<close> just read.\<close>

definition debounce_switch :: "u32 \<Rightarrow> bool \<Rightarrow> nat \<Rightarrow> state \<Rightarrow> state" where
  "debounce_switch t r i s =
     (let s1 = s\<lparr>rawState := (rawState s)(i := r)\<rparr>;
          s2 = (if rawState s1 i \<noteq> lastRaw s1 i
                then s1\<lparr>lastRaw := (lastRaw s1)(i := rawState s1 i),
                        lastChangeMs := (lastChangeMs s1)(i := t)\<rparr>
                else s1)
      in if t - lastChangeMs s2 i \<ge> DEBOUNCE_MS then
           (if stableState s2 i \<noteq> rawState s2 i then
              (let s3 = s2\<lparr>stableState := (stableState s2)(i := rawState s2 i)\<rparr>;
                   pressed = stableState s3 i
               in if i \<ge> 3 \<and> i \<le> 5 then
                    (if pressed then
                       s3\<lparr>pendingPress := (pendingPress s3)(i := True),
                          pendingAt := (pendingAt s3)(i := t)\<rparr>
                     else if sentPress s3 i then
                       (let s4 = handleSwitchEvent i False s3
                        in s4\<lparr>sentPress := (sentPress s4)(i := False)\<rparr>)
                     else if pendingPress s3 i then
                       handleSwitchEvent i False
                         (handleSwitchEvent i True
                            (s3\<lparr>pendingPress := (pendingPress s3)(i := False)\<rparr>))
                     else s3)
                  else handleSwitchEvent i pressed s3)
            else s2)
         else s2)"

definition chord45 :: "state \<Rightarrow> bool" where
  "chord45 s = (stableState s 3 \<and> stableState s 4)"

definition chord56 :: "state \<Rightarrow> bool" where
  "chord56 s = (stableState s 4 \<and> stableState s 5)"

definition clear_pending :: "state \<Rightarrow> state" where
  "clear_pending s =
     s\<lparr>pendingPress := (pendingPress s)(5 := False, 4 := False, 3 := False),
       sentPress := (sentPress s)(5 := False, 4 := False, 3 := False)\<rparr>"

definition chord_phase :: "state \<Rightarrow> state" where
  "chord_phase s =
     (let c45 = chord45 s;
          c56 = chord56 s;
          s1 = (if c45 then
                  (if \<not> chord45Latched s then
                     (let sa = clear_pending (s\<lparr>chord45Latched := True\<rparr>)
                      in doBankDown (sa\<lparr>events := events sa @ [ChordBankDown]\<rparr>))
                   else s)
                else s\<lparr>chord45Latched := False\<rparr>)
      in if c56 then
           (if \<not> chord56Latched s1 then
              (let sb = clear_pending (s1\<lparr>chord56Latched := True\<rparr>)
               in doBankUp (sb\<lparr>events := events sb @ [ChordBankUp]\<rparr>))
            else s1)
         else s1\<lparr>chord56Latched := False\<rparr>)"

definition commit_pending :: "u32 \<Rightarrow> nat \<Rightarrow> state \<Rightarrow> state" where
  "commit_pending t i s =
     (if pendingPress s i then
        (if t - pendingAt s i \<ge> CHORD_WINDOW_MS then
           (let s1 = handleSwitchEvent i True (s\<lparr>pendingPress := (pendingPress s)(i := False)\<rparr>)
            in s1\<lparr>sentPress := (sentPress s1)(i := True)\<rparr>)
         else s)
      else s)"

definition debounce_phase :: "poll \<Rightarrow> state \<Rightarrow> state" where
  "debounce_phase p s = fold (\<lambda>i. debounce_switch (now p) (closed p i) i) [0..<NUM_SW] s"

definition loop :: "(string \<Rightarrow> int) \<Rightarrow> poll \<Rightarrow> state \<Rightarrow> state" where
  "loop atoi p s =
     (let s1 = fold (serial_char atoi) (rx p) s;
          s2 = debounce_phase p s1;
          s3 = chord_phase s2;
          anyChord = (chord45 s2 \<or> chord56 s2)
      in if anyChord then s3
         else fold (commit_pending (now p)) [3, 4, 5] s3)"

text \<open>Consecutive passes of \<open>loop()\<close>.\<close>

fun run :: "(string \<Rightarrow> int) \<Rightarrow> poll list \<Rightarrow> state \<Rightarrow> state" where
  "run atoi [] s = s"
| "run atoi (p # ps) s = run atoi ps (loop atoi p s)"

section \<open>Concrete inputs used below\<close>

text \<open>
  An EEPROM that carries the marker \<open>MCFF\<close> and is erased (0xFF) everywhere else, and a
  fully erased one.
\<close>

definition marker_only_image :: "nat \<Rightarrow> u8" where
  "marker_only_image a =
     (if a = 0 then 0x46 else if a = 1 then 0x46 else if a = 2 then 0x43
      else if a = 3 then 0x4D else 0xFF)"

definition erased_image :: "nat \<Rightarrow> u8" where
  "erased_image a = 0xFF"

text \<open>
  A reference \<open>atoi\<close> for running examples: optional white space, an optional sign,
  then decimal digits up to the first other character (no digits give 0).
\<close>

definition is_space :: "char \<Rightarrow> bool" where
  "is_space c = (c = CHR '' '' \<or> (9 \<le> (of_char c :: nat) \<and> (of_char c :: nat) \<le> 13))"

definition is_digit :: "char \<Rightarrow> bool" where
  "is_digit c = (48 \<le> (of_char c :: nat) \<and> (of_char c :: nat) \<le> 57)"

fun digits_val :: "nat \<Rightarrow> string \<Rightarrow> nat" where
  "digits_val acc [] = acc"
| "digits_val acc (c # cs) =
     (if is_digit c then digits_val (acc * 10 + (of_char c - 48)) cs else acc)"

definition atoi_ref :: "string \<Rightarrow> int" where
  "atoi_ref str =
     (case dropWhile is_space str of
        [] \<Rightarrow> 0
      | c # cs \<Rightarrow>
          if c = CHR ''-'' then - int (digits_val 0 cs)
          else if c = CHR ''+'' then int (digits_val 0 cs)
          else int (digits_val 0 (c # cs)))"

text \<open>The state after power-up with no switch held.\<close>

definition no_switch :: "nat \<Rightarrow> bool" where
  "no_switch i = False"

definition boot :: "(nat \<Rightarrow> u8) \<Rightarrow> state" where
  "boot e = setup_sketch 0 no_switch e"

section \<open>Auxiliary notions for the proofs\<close>

text \<open>
  The nine EEPROM cells of a slot, and the slots that \<open>eepromReadSlot\<close> returns
  unchanged after \<open>eepromWriteSlot\<close>: a four-character label without 0xFF or NUL,
  a type within the enumeration and a channel in 1..16.
\<close>

definition slot_cells :: "nat \<Rightarrow> nat \<Rightarrow> nat set" where
  "slot_cells b sw = {slotAddr b sw ..< slotAddr b sw + 9}"

definition storable :: "Slot \<Rightarrow> bool" where
  "storable sl = (length (label sl) = 4 \<and> CHR 0xFF \<notin> set (label sl) \<and> CHR 0x00 \<notin> set (label sl)
     \<and> type sl \<le> 6 \<and> 1 \<le> ch sl \<and> ch sl \<le> 16)"

text \<open>
  The protocol's view of a line: its comma-separated fields, and the \<open>k\<close>-th argument
  of a \<open>SET\<close> line (the \<open>k\<close>-th field after the keyword, spaces trimmed).
\<close>

fun fields :: "string \<Rightarrow> string list" where
  "fields [] = [[]]"
| "fields (c # cs) =
     (if c = CHR '','' then [] # fields cs
      else (case fields cs of [] \<Rightarrow> [[c]] | f # fs \<Rightarrow> (c # f) # fs))"

definition set_arg :: "string \<Rightarrow> nat \<Rightarrow> string" where
  "set_arg line k = trim_spaces (fields (drop 4 line) ! k)"

definition set_args_present :: "string \<Rightarrow> bool" where
  "set_args_present line = (8 \<le> length (fields (drop 4 line)))"

definition set_index_ok :: "(string \<Rightarrow> int) \<Rightarrow> string \<Rightarrow> bool" where
  "set_index_ok atoi line =
     (1 \<le> atoi (set_arg line 0) \<and> atoi (set_arg line 0) \<le> 4
      \<and> 1 \<le> atoi (set_arg line 1) \<and> atoi (set_arg line 1) \<le> 6)"

definition set_target :: "(string \<Rightarrow> int) \<Rightarrow> string \<Rightarrow> nat \<times> nat" where
  "set_target atoi line = (nat (atoi (set_arg line 0) - 1), nat (atoi (set_arg line 1) - 1))"

definition set_slot :: "(string \<Rightarrow> int) \<Rightarrow> string \<Rightarrow> Slot" where
  "set_slot atoi line =
     \<lparr> label = set_label (set_arg line 2),
       type = (if atoi (set_arg line 3) < 0 \<or> atoi (set_arg line 3) > 6 then 0
               else of_int (atoi (set_arg line 3))),
       ch = of_int (clamp_int 1 16 (atoi (set_arg line 4))),
       num = of_int (clamp_int 0 127 (atoi (set_arg line 5))),
       vPress = of_int (clamp_int 0 127 (atoi (set_arg line 6))),
       vRelease = of_int (clamp_int 0 127 (atoi (set_arg line 7))) \<rparr>"

text \<open>The pointer \<open>p\<close> of \<open>applySetLine\<close> after \<open>k\<close> calls of \<open>nextTok\<close>.\<close>

fun ptr :: "nat \<Rightarrow> string option \<Rightarrow> string option" where
  "ptr 0 p = p"
| "ptr (Suc k) p = ptr k (snd (nextTok p))"

text \<open>A \<open>SET\<close> line with nine fields after the keyword.\<close>

definition nine_field_line :: string where
  "nine_field_line = ''SET,1,1,VOL_,1,1,7,100,0,junk''"

text \<open>A \<open>SET\<close> line that makes bank 1, switch 1 a toggling control change.\<close>

definition toggle_line :: string where
  "toggle_line = ''SET,1,1,TOG_,5,1,7,100,0''"

text \<open>
  Twenty-four \<open>SET\<close> lines, one per slot in bank-major order, all with the label
  \<open>lab\<close>: \<open>SET,<bank>,<switch>,<lab>,1,1,7,100,0\<close>. Two labels are used below: four
  bytes 0xFF (the full block of the LCD's character set) and \<open>VOL_\<close>.
\<close>

definition set_line_for :: "string \<Rightarrow> nat \<Rightarrow> nat \<Rightarrow> string" where
  "set_line_for lab b sw =
     ''SET,'' @ print_dec (b + 1) @ '','' @ print_dec (sw + 1) @ '','' @ lab @ '',1,1,7,100,0''"

definition set_all_lines :: "string \<Rightarrow> string list" where
  "set_all_lines lab = map (\<lambda>(b, sw). set_line_for lab b sw) slot_indices"

definition block_label :: string where
  "block_label = [CHR 0xFF, CHR 0xFF, CHR 0xFF, CHR 0xFF]"

text \<open>
  The round trip of claim C2: the \<open>SET\<close> lines, \<open>SAVE\<close>, a power cycle on the saved
  EEPROM, \<open>LOAD\<close>, \<open>DUMP\<close>.
\<close>

definition after_sets :: "(string \<Rightarrow> int) \<Rightarrow> string list \<Rightarrow> state \<Rightarrow> state" where
  "after_sets atoi lines s0 = fold (processSerialLine atoi) lines s0"

definition after_reload :: "(string \<Rightarrow> int) \<Rightarrow> u32 \<Rightarrow> (nat \<Rightarrow> bool) \<Rightarrow> state \<Rightarrow> state" where
  "after_reload atoi t pins s1 =
     processSerialLine atoi ''LOAD''
       (setup_sketch t pins (eeprom (processSerialLine atoi ''SAVE'' s1)))"

definition dumped_lines :: "(string \<Rightarrow> int) \<Rightarrow> state \<Rightarrow> string list" where
  "dumped_lines atoi s = drop (length (serial_out s)) (serial_out (processSerialLine atoi ''DUMP'' s))"

text \<open>
  The run-time record of one switch, read off the state, and the effect of one pass of
  the poll loop on it, phase by phase. \<open>deb_rt\<close> and \<open>deb_ev\<close> are the debounce loop
  body for one switch (new record, calls of \<open>handleSwitchEvent\<close>); \<open>commit_rt\<close> and
  \<open>commit_ev\<close> are the chord-window check at the end of \<open>loop()\<close>. The lemmas of
  the section on the poll loop show that the sketch computes exactly these.
\<close>

definition sw_of :: "state \<Rightarrow> nat \<Rightarrow> sw_rt" where
  "sw_of s i =
     \<lparr> stable = stableState s i, last_raw = lastRaw s i, last_change = lastChangeMs s i,
       pending = pendingPress s i, pending_at = pendingAt s i, sent = sentPress s i \<rparr>"

definition is_chord_switch :: "nat \<Rightarrow> bool" where
  "is_chord_switch i = (3 \<le> i \<and> i \<le> 5)"

definition settles :: "u32 \<Rightarrow> bool \<Rightarrow> sw_rt \<Rightarrow> bool" where
  "settles t r w = (r = last_raw w \<and> r \<noteq> stable w \<and> DEBOUNCE_MS \<le> t - last_change w)"

definition deb_rt :: "u32 \<Rightarrow> bool \<Rightarrow> nat \<Rightarrow> sw_rt \<Rightarrow> sw_rt" where
  "deb_rt t r i w =
     (let w1 = w\<lparr>last_raw := r, last_change := (if r \<noteq> last_raw w then t else last_change w)\<rparr>
      in if settles t r w then
           (if is_chord_switch i then
              (if r then w1\<lparr>stable := True, pending := True, pending_at := t\<rparr>
               else if sent w then w1\<lparr>stable := False, sent := False\<rparr>
               else w1\<lparr>stable := False, pending := False\<rparr>)
            else w1\<lparr>stable := r\<rparr>)
         else w1)"

definition deb_ev :: "u32 \<Rightarrow> bool \<Rightarrow> nat \<Rightarrow> sw_rt \<Rightarrow> event list" where
  "deb_ev t r i w =
     (if settles t r w then
        (if is_chord_switch i then
           (if r then []
            else if sent w then [SwitchEvent i False]
            else if pending w then [SwitchEvent i True, SwitchEvent i False]
            else [])
         else [SwitchEvent i r])
      else [])"

definition commits :: "u32 \<Rightarrow> sw_rt \<Rightarrow> bool" where
  "commits t w = (pending w \<and> CHORD_WINDOW_MS \<le> t - pending_at w)"

definition commit_rt :: "u32 \<Rightarrow> sw_rt \<Rightarrow> sw_rt" where
  "commit_rt t w = (if commits t w then w\<lparr>pending := False, sent := True\<rparr> else w)"

definition commit_ev :: "u32 \<Rightarrow> nat \<Rightarrow> sw_rt \<Rightarrow> event list" where
  "commit_ev t i w = (if commits t w then [SwitchEvent i True] else [])"

definition after_debounce :: "poll \<Rightarrow> state \<Rightarrow> nat \<Rightarrow> sw_rt" where
  "after_debounce p s j = (if j < 6 then deb_rt (now p) (closed p j) j (sw_of s j) else sw_of s j)"

definition joint45 :: "poll \<Rightarrow> state \<Rightarrow> bool" where
  "joint45 p s = (stable (after_debounce p s 3) \<and> stable (after_debounce p s 4))"

definition joint56 :: "poll \<Rightarrow> state \<Rightarrow> bool" where
  "joint56 p s = (stable (after_debounce p s 4) \<and> stable (after_debounce p s 5))"

definition chord_fires :: "poll \<Rightarrow> state \<Rightarrow> bool" where
  "chord_fires p s =
     ((joint45 p s \<and> \<not> chord45Latched s) \<or> (joint56 p s \<and> \<not> chord56Latched s))"

definition after_chord :: "poll \<Rightarrow> state \<Rightarrow> nat \<Rightarrow> sw_rt" where
  "after_chord p s j =
     (if chord_fires p s \<and> is_chord_switch j
      then (after_debounce p s j)\<lparr>pending := False, sent := False\<rparr>
      else after_debounce p s j)"

definition after_pass :: "poll \<Rightarrow> state \<Rightarrow> nat \<Rightarrow> sw_rt" where
  "after_pass p s j =
     (if \<not> (joint45 p s \<or> joint56 p s) \<and> is_chord_switch j
      then commit_rt (now p) (after_chord p s j)
      else after_chord p s j)"

definition pass_events :: "poll \<Rightarrow> state \<Rightarrow> event list" where
  "pass_events p s =
     concat (map (\<lambda>j. deb_ev (now p) (closed p j) j (sw_of s j)) [0..<6])
     @ (if joint45 p s \<and> \<not> chord45Latched s then [ChordBankDown] else [])
     @ (if joint56 p s \<and> \<not> chord56Latched s then [ChordBankUp] else [])
     @ (if \<not> (joint45 p s \<or> joint56 p s)
        then concat (map (\<lambda>j. commit_ev (now p) j (after_chord p s j)) [3, 4, 5])
        else [])"

text \<open>The calls of \<open>handleSwitchEvent\<close> for switch \<open>i\<close> among a list of events.\<close>

fun for_switch :: "nat \<Rightarrow> event \<Rightarrow> bool" where
  "for_switch i (SwitchEvent j b) = (j = i)"
| "for_switch i ChordBankDown = False"
| "for_switch i ChordBankUp = False"

definition switch_events :: "nat \<Rightarrow> event list \<Rightarrow> event list" where
  "switch_events i evs = filter (for_switch i) evs"

text \<open>What a stretch of execution added to the event log.\<close>

definition emitted :: "state \<Rightarrow> state \<Rightarrow> event list" where
  "emitted s s' = drop (length (events s)) (events s')"

text \<open>
  A stretch of polls during which switch \<open>i\<close> makes no fresh debounced press: in no
  pass does its stable state go from released to pressed.
\<close>

fun no_fresh_press :: "(string \<Rightarrow> int) \<Rightarrow> nat \<Rightarrow> poll list \<Rightarrow> state \<Rightarrow> bool" where
  "no_fresh_press atoi i [] s = True"
| "no_fresh_press atoi i (p # ps) s =
     ((stableState (loop atoi p s) i \<longrightarrow> stableState s i)
      \<and> no_fresh_press atoi i ps (loop atoi p s))"

text \<open>
  The chord switches on their own: the records of switches 3, 4, 5 and the two latches
  determine what a pass does to them and which chord events and calls for these three
  switches it makes. \<open>view_pass\<close> is that pass, \<open>view_run\<close> a sequence of passes; they
  are used to run the sketch on concrete polls.
\<close>

type_synonym chord_view = "sw_rt \<times> sw_rt \<times> sw_rt \<times> bool \<times> bool"

definition chord_view :: "state \<Rightarrow> chord_view" where
  "chord_view s = (sw_of s 3, sw_of s 4, sw_of s 5, chord45Latched s, chord56Latched s)"

definition view_pass :: "poll \<Rightarrow> chord_view \<Rightarrow> chord_view \<times> event list" where
  "view_pass p v =
     (case v of (w3, w4, w5, l45, l56) \<Rightarrow>
        let d3 = deb_rt (now p) (closed p 3) 3 w3;
            d4 = deb_rt (now p) (closed p 4) 4 w4;
            d5 = deb_rt (now p) (closed p 5) 5 w5;
            j45 = (stable d3 \<and> stable d4);
            j56 = (stable d4 \<and> stable d5);
            fires = ((j45 \<and> \<not> l45) \<or> (j56 \<and> \<not> l56));
            c3 = (if fires then d3\<lparr>pending := False, sent := False\<rparr> else d3);
            c4 = (if fires then d4\<lparr>pending := False, sent := False\<rparr> else d4);
            c5 = (if fires then d5\<lparr>pending := False, sent := False\<rparr> else d5);
            quiet = (\<not> (j45 \<or> j56))
        in ((if quiet then commit_rt (now p) c3 else c3,
             if quiet then commit_rt (now p) c4 else c4,
             if quiet then commit_rt (now p) c5 else c5, j45, j56),
            deb_ev (now p) (closed p 3) 3 w3 @ deb_ev (now p) (closed p 4) 4 w4
              @ deb_ev (now p) (closed p 5) 5 w5
              @ (if j45 \<and> \<not> l45 then [ChordBankDown] else [])
              @ (if j56 \<and> \<not> l56 then [ChordBankUp] else [])
              @ (if quiet
                 then commit_ev (now p) 3 c3 @ commit_ev (now p) 4 c4 @ commit_ev (now p) 5 c5
                 else [])))"

fun view_run :: "poll list \<Rightarrow> chord_view \<Rightarrow> chord_view \<times> event list" where
  "view_run [] v = (v, [])"
| "view_run (p # ps) v =
     (let r1 = view_pass p v; r2 = view_run ps (fst r1) in (fst r2, snd r1 @ snd r2))"

text \<open>The events that concern the chord logic: all but the calls for switches 0 to 2.\<close>

fun chord_event :: "event \<Rightarrow> bool" where
  "chord_event (SwitchEvent j b) = is_chord_switch j"
| "chord_event ChordBankDown = True"
| "chord_event ChordBankUp = True"

definition chord_part :: "event list \<Rightarrow> event list" where
  "chord_part evs = filter chord_event evs"

text \<open>A poll at time \<open>t\<close> with no serial input and exactly the switches \<open>held\<close> closed.\<close>

definition poll_at :: "nat \<Rightarrow> nat list \<Rightarrow> poll" where
  "poll_at t held = \<lparr> rx = [], now = of_nat t, closed = (\<lambda>i. i \<in> set held) \<rparr>"

definition idle_switch :: sw_rt where
  "idle_switch = \<lparr> stable = False, last_raw = False, last_change = 0, pending = False,
                   pending_at = 0, sent = False \<rparr>"

text \<open>
  An invariant of the chord latches: a latch is set only while its pair is jointly
  stable-pressed, and while a latch is set no press of switches 3, 4, 5 is pending or
  committed. It holds after \<open>setup()\<close> and is kept by every pass of \<open>loop()\<close>.
\<close>

definition chord_inv :: "state \<Rightarrow> bool" where
  "chord_inv s =
     ((chord45Latched s \<longrightarrow> stableState s 3 \<and> stableState s 4)
      \<and> (chord56Latched s \<longrightarrow> stableState s 4 \<and> stableState s 5)
      \<and> (chord45Latched s \<or> chord56Latched s \<longrightarrow>
           \<not> pendingPress s 3 \<and> \<not> pendingPress s 4 \<and> \<not> pendingPress s 5
           \<and> \<not> sentPress s 3 \<and> \<not> sentPress s 4 \<and> \<not> sentPress s 5))"

text \<open>
  Poll sequences used as examples. Each starts at power-up with all switches open:
  \<open>pair_45\<close> and \<open>pair_56\<close> press a chord pair and hold it until it is debounced;
  \<open>committed_3\<close> (\<open>committed_5\<close>) holds switch 3 (5) alone until its press is committed at
  the end of the chord window and then samples switches 3 and 4 closed;
  \<open>release_all\<close> opens every switch and waits for the debounce.
\<close>

definition pair_45 :: "poll list" where
  "pair_45 = [poll_at 0 [3, 4], poll_at 35 [3, 4]]"

definition pair_56 :: "poll list" where
  "pair_56 = [poll_at 0 [4, 5], poll_at 35 [4, 5]]"

definition committed_3 :: "poll list" where
  "committed_3 = [poll_at 0 [3], poll_at 35 [3], poll_at 155 [3], poll_at 200 [3, 4]]"

definition committed_5 :: "poll list" where
  "committed_5 = [poll_at 0 [5], poll_at 35 [5], poll_at 155 [5], poll_at 200 [3, 4]]"

definition release_all :: "poll list" where
  "release_all = [poll_at 300 [], poll_at 335 []]"

section \<open>Verification\<close>

subsection \<open>Basic facts\<close>

lemma char_of_byte_of_char [simp]: "char_of_byte (byte_of_char c) = c"
  by (simp add: byte_of_char_def char_of_byte_def unat_of_nat)

lemma set_slot_indices: "set slot_indices = {(b, sw). b < 4 \<and> sw < 6}"
  by (auto simp: slot_indices_def)

lemma distinct_slot_indices: "distinct slot_indices"
  by (simp add: slot_indices_def distinct_product)

lemma println_fields [simp]:
  "cfg (println l s) = cfg s" "togState (println l s) = togState s"
  "currentBank (println l s) = currentBank s" "eeprom (println l s) = eeprom s"
  "serial_out (println l s) = serial_out s @ [l]" "midi_out (println l s) = midi_out s"
  "events (println l s) = events s" "lineBuf (println l s) = lineBuf s"
  "chord45Latched (println l s) = chord45Latched s"
  "chord56Latched (println l s) = chord56Latched s"
  "pendingPress (println l s) = pendingPress s" "pendingAt (println l s) = pendingAt s"
  "sentPress (println l s) = sentPress s" "rawState (println l s) = rawState s"
  "stableState (println l s) = stableState s" "lastRaw (println l s) = lastRaw s"
  "lastChangeMs (println l s) = lastChangeMs s"
  by (simp_all add: println_def)

lemma u8_cases_le6:
  "(t::u8) \<le> 6 \<Longrightarrow> t = 0 \<or> t = 1 \<or> t = 2 \<or> t = 3 \<or> t = 4 \<or> t = 5 \<or> t = 6"
  by (simp add: word_le_nat_alt word_unat_eq_iff) arith

lemma ActionType_of_known: "ActionType_of t \<noteq> None \<longleftrightarrow> t \<le> 6"
proof
  assume "ActionType_of t \<noteq> None"
  then show "t \<le> 6" by (auto simp: ActionType_of_def split: if_splits)
next
  assume "t \<le> 6"
  from u8_cases_le6 [OF this] show "ActionType_of t \<noteq> None"
    by (auto simp: ActionType_of_def)
qed

subsection \<open>Loading from the EEPROM\<close>

lemma fold_cfg_update:
  "fold (\<lambda>(b, sw) c. c(b := (c b)(sw := f b sw))) ps c b sw =
     (if (b, sw) \<in> set ps then f b sw else c b sw)"
  by (induction ps arbitrary: c) (auto split: prod.splits)

lemma load_cfg:
  "EEPROM_get32 EEPROM_MAGIC_ADDR (eeprom s) = EEPROM_MAGIC \<Longrightarrow>
   cfg (snd (loadAllFromEEPROM s)) b sw =
     (if b < 4 \<and> sw < 6 then eepromReadSlot b sw (eeprom s) else cfg s b sw)"
  by (simp add: loadAllFromEEPROM_def fold_cfg_update set_slot_indices)

lemma load_togState: "togState (snd (loadAllFromEEPROM s)) = togState s"
  by (simp add: loadAllFromEEPROM_def)

text \<open>What \<open>eepromReadSlot\<close> does sanitize: type, channel and label.\<close>

lemma read_slot_sanitized:
  "type (eepromReadSlot b sw e) \<le> 6"
  "1 \<le> ch (eepromReadSlot b sw e)" "ch (eepromReadSlot b sw e) \<le> 16"
  "length (label (eepromReadSlot b sw e)) = 4"
  "CHR 0xFF \<notin> set (label (eepromReadSlot b sw e))"
  "CHR 0x00 \<notin> set (label (eepromReadSlot b sw e))"
  by (auto simp add: eepromReadSlot_def Let_def sanitize_label_char_def
        word_le_nat_alt word_less_nat_alt word_unat_eq_iff)

text \<open>
  Claim C3. When the four marker bytes of the EEPROM do not spell the expected value,
  \<open>loadAllFromEEPROM\<close> returns \<open>false\<close> and leaves the whole state, in particular
  the 4x6 slot grid, as it was; the \<open>LOAD\<close> command then answers
  \<open>ERR,NO_EEPROM_CONFIG\<close> and changes nothing but the serial output.
\<close>

theorem C3_load_without_marker:
  assumes "EEPROM_get32 EEPROM_MAGIC_ADDR (eeprom s) \<noteq> EEPROM_MAGIC"
  shows "loadAllFromEEPROM s = (False, s)
       \<and> cfg (snd (loadAllFromEEPROM s)) = cfg s
       \<and> processSerialLine atoi ''LOAD'' s
           = s\<lparr>serial_out := serial_out s @ [''ERR,NO_EEPROM_CONFIG'']\<rparr>
       \<and> cfg (processSerialLine atoi ''LOAD'' s) = cfg s"
  using assms by (simp add: processSerialLine_def loadAllFromEEPROM_def println_def)

theorem C3_load_without_marker_witness:
  "EEPROM_get32 EEPROM_MAGIC_ADDR (eeprom (power_on erased_image)) \<noteq> EEPROM_MAGIC
   \<and> fst (loadAllFromEEPROM (power_on erased_image)) = False
   \<and> serial_out (processSerialLine (\<lambda>t. 0) ''LOAD'' (power_on erased_image))
       = [''ERR,NO_EEPROM_CONFIG'']
   \<and> cfg (processSerialLine (\<lambda>t. 0) ''LOAD'' (power_on erased_image))
       = cfg (power_on erased_image)"
proof -
  have h: "EEPROM_get32 EEPROM_MAGIC_ADDR (eeprom (power_on erased_image)) \<noteq> EEPROM_MAGIC"
    by (simp add: EEPROM_get32_def EEPROM_MAGIC_def power_on_def erased_image_def)
  from C3_load_without_marker [OF h, of "\<lambda>t. 0"] h show ?thesis
    by (simp add: power_on_def)
qed

subsection \<open>Saving to the EEPROM and reading back\<close>

lemma slot_cells_disjoint:
  "sw < 6 \<Longrightarrow> sw' < 6 \<Longrightarrow> (b, sw) \<noteq> (b', sw') \<Longrightarrow> slot_cells b sw \<inter> slot_cells b' sw' = {}"
proof -
  assume a: "sw < 6" "sw' < 6" "(b, sw) \<noteq> (b', sw')"
  then have "b * 6 + sw \<noteq> b' * 6 + sw'" by auto arith
  then have "b * 6 + sw < b' * 6 + sw' \<or> b' * 6 + sw' < b * 6 + sw" by arith
  then show ?thesis unfolding slot_cells_def slotAddr_def by auto
qed

lemma slot_cells_above_marker: "a \<in> slot_cells b sw \<Longrightarrow> 4 \<le> a"
  unfolding slot_cells_def slotAddr_def by auto

lemma write_slot_other:
  "a \<notin> slot_cells b sw \<Longrightarrow> eepromWriteSlot b sw sl e a = e a"
  unfolding slot_cells_def eepromWriteSlot_def Let_def by auto

lemma read_slot_cong:
  "(\<And>a. a \<in> slot_cells b sw \<Longrightarrow> e a = e' a) \<Longrightarrow> eepromReadSlot b sw e = eepromReadSlot b sw e'"
  unfolding slot_cells_def eepromReadSlot_def Let_def by simp

lemma list4: "length xs = 4 \<Longrightarrow> xs = [xs ! 0, xs ! 1, xs ! 2, xs ! 3]"
  by (auto simp: list_eq_iff_nth_eq less_Suc_eq numeral_eq_Suc)

lemma read_write_slot:
  assumes "storable sl"
  shows "eepromReadSlot b sw (eepromWriteSlot b sw sl e) = sl"
proof -
  have l: "label sl = [label sl ! 0, label sl ! 1, label sl ! 2, label sl ! 3]"
    using assms by (intro list4) (simp add: storable_def)
  have m: "sanitize_label_char (label sl ! i) = label sl ! i" if "i < 4" for i
  proof -
    from that assms have "label sl ! i \<in> set (label sl)" by (simp add: storable_def)
    with assms show ?thesis by (auto simp: storable_def sanitize_label_char_def)
  qed
  have "label (eepromReadSlot b sw (eepromWriteSlot b sw sl e)) = [label sl ! 0, label sl ! 1, label sl ! 2, label sl ! 3]"
    by (simp add: eepromReadSlot_def eepromWriteSlot_def Let_def m)
  with l have 1: "label (eepromReadSlot b sw (eepromWriteSlot b sw sl e)) = label sl" by simp
  have 2: "type (eepromReadSlot b sw (eepromWriteSlot b sw sl e)) = type sl"
    using assms by (simp add: eepromReadSlot_def eepromWriteSlot_def Let_def storable_def not_less[symmetric])
  have 3: "ch (eepromReadSlot b sw (eepromWriteSlot b sw sl e)) = ch sl"
    using assms by (auto simp add: eepromReadSlot_def eepromWriteSlot_def Let_def storable_def word_le_nat_alt word_less_nat_alt)
  have 4: "num (eepromReadSlot b sw (eepromWriteSlot b sw sl e)) = num sl"
     "vPress (eepromReadSlot b sw (eepromWriteSlot b sw sl e)) = vPress sl"
     "vRelease (eepromReadSlot b sw (eepromWriteSlot b sw sl e)) = vRelease sl"
    by (simp_all add: eepromReadSlot_def eepromWriteSlot_def Let_def)
  show ?thesis using 1 2 3 4 by (intro Slot.equality) simp_all
qed

lemma fold_write_other:
  "(\<And>b sw. (b, sw) \<in> set ps \<Longrightarrow> a \<notin> slot_cells b sw) \<Longrightarrow>
   fold (\<lambda>(b, sw) e. eepromWriteSlot b sw (c b sw) e) ps e a = e a"
  by (induction ps arbitrary: e) (auto simp: write_slot_other)

lemma fold_write_read:
  assumes "distinct ps" "(b, sw) \<in> set ps" "\<forall>(b', sw') \<in> set ps. sw' < 6" "storable (c b sw)"
  shows "eepromReadSlot b sw (fold (\<lambda>(b, sw) e. eepromWriteSlot b sw (c b sw) e) ps e) = c b sw"
  using assms
proof (induction ps arbitrary: e)
  case Nil
  then show ?case by simp
next
  case (Cons p ps)
  obtain b' sw' where p: "p = (b', sw')" by (cases p)
  show ?case
  proof (cases "(b, sw) = p")
    case True
    have "eepromReadSlot b sw (fold (\<lambda>(b, sw) e. eepromWriteSlot b sw (c b sw) e) ps (eepromWriteSlot b sw (c b sw) e))
        = eepromReadSlot b sw (eepromWriteSlot b sw (c b sw) e)"
    proof (rule read_slot_cong)
      fix a assume a: "a \<in> slot_cells b sw"
      show "fold (\<lambda>(b, sw) e. eepromWriteSlot b sw (c b sw) e) ps (eepromWriteSlot b sw (c b sw) e) a
          = eepromWriteSlot b sw (c b sw) e a"
      proof (rule fold_write_other)
        fix b2 sw2 assume m: "(b2, sw2) \<in> set ps"
        with Cons.prems True have ne: "(b, sw) \<noteq> (b2, sw2)" by auto
        from Cons.prems m True have "sw < 6" "sw2 < 6" by auto
        from slot_cells_disjoint [OF this ne] a show "a \<notin> slot_cells b2 sw2" by auto
      qed
    qed
    with True [symmetric] Cons.prems show ?thesis by (simp add: read_write_slot)
  next
    case False
    with Cons show ?thesis by (auto simp: p)
  qed
qed

lemma get_put_magic: "EEPROM_get32 0 (EEPROM_put32 0 EEPROM_MAGIC e) = EEPROM_MAGIC"
  by (simp add: EEPROM_get32_def EEPROM_put32_def EEPROM_MAGIC_def)

lemma get32_cong: "(\<And>a. a < 4 \<Longrightarrow> e a = e' a) \<Longrightarrow> EEPROM_get32 0 e = EEPROM_get32 0 e'"
  by (simp add: EEPROM_get32_def)

lemma save_marker: "EEPROM_get32 EEPROM_MAGIC_ADDR (eeprom (saveAllToEEPROM s)) = EEPROM_MAGIC"
proof -
  have "EEPROM_get32 0 (eeprom (saveAllToEEPROM s)) = EEPROM_get32 0 (EEPROM_put32 0 EEPROM_MAGIC (eeprom s))"
    unfolding saveAllToEEPROM_def
    by (rule get32_cong) (auto intro!: fold_write_other dest: slot_cells_above_marker)
  then show ?thesis by (simp add: get_put_magic)
qed

lemma save_read:
  "b < 4 \<Longrightarrow> sw < 6 \<Longrightarrow> storable (cfg s b sw) \<Longrightarrow>
   eepromReadSlot b sw (eeprom (saveAllToEEPROM s)) = cfg s b sw"
  unfolding saveAllToEEPROM_def
  by (simp add: fold_write_read distinct_slot_indices set_slot_indices)

lemma save_fields [simp]:
  "cfg (saveAllToEEPROM s) = cfg s" "togState (saveAllToEEPROM s) = togState s"
  "currentBank (saveAllToEEPROM s) = currentBank s"
  "serial_out (saveAllToEEPROM s) = serial_out s @ [''OK,SAVED'']"
  by (simp_all add: saveAllToEEPROM_def)

subsection \<open>The SET command\<close>

lemma fields_nonempty [simp]: "fields r \<noteq> []"
  by (induction r) (auto split: list.splits)

lemma fields_no_comma: "CHR '','' \<notin> set r \<Longrightarrow> fields r = [r]"
  by (induction r) (auto split: list.splits)

lemma fields_comma:
  "CHR '','' \<in> set r \<Longrightarrow>
   fields r = takeWhile (\<lambda>c. c \<noteq> CHR '','') r # fields (tl (dropWhile (\<lambda>c. c \<noteq> CHR '','') r))"
  by (induction r) (auto split: list.splits simp: fields_no_comma)

lemma ptr_None [simp]: "ptr k None = None"
  by (induction k) (simp_all add: nextTok_def)

lemma ptr_Suc': "ptr (Suc k) p = snd (nextTok (ptr k p))"
  by (induction k arbitrary: p) simp_all

lemma tok_ptr:
  "fst (nextTok (ptr k (Some r))) =
     (if k < length (fields r) then Some (trim_spaces (fields r ! k)) else None)"
proof (induction k arbitrary: r)
  case 0
  show ?case
    by (cases "CHR '','' \<in> set r") (simp_all add: nextTok_def fields_comma fields_no_comma)
next
  case (Suc k)
  show ?case
  proof (cases "CHR '','' \<in> set r")
    case True
    then show ?thesis using Suc [of "tl (dropWhile (\<lambda>c. c \<noteq> CHR '','') r)"]
      by (simp add: nextTok_def fields_comma)
  next
    case False
    then show ?thesis by (simp add: nextTok_def fields_no_comma)
  qed
qed


lemma ptr_unfold:
  "ptr 0 p = p"
  "ptr 1 p = snd (nextTok p)"
  "ptr 2 p = snd (nextTok (snd (nextTok p)))"
  "ptr 3 p = snd (nextTok (snd (nextTok (snd (nextTok p)))))"
  "ptr 4 p = snd (nextTok (snd (nextTok (snd (nextTok (snd (nextTok p)))))))"
  "ptr 5 p = snd (nextTok (snd (nextTok (snd (nextTok (snd (nextTok (snd (nextTok p)))))))))"
  "ptr 6 p = snd (nextTok (snd (nextTok (snd (nextTok (snd (nextTok (snd (nextTok
               (snd (nextTok p)))))))))))"
  "ptr 7 p = snd (nextTok (snd (nextTok (snd (nextTok (snd (nextTok (snd (nextTok
               (snd (nextTok (snd (nextTok p)))))))))))))"
  by (simp_all add: eval_nat_numeral)

lemma applySetLine_ptr:
  "applySetLine atoi line s =
     (let T = (\<lambda>k. fst (nextTok (ptr k (Some (drop 4 line)))))
      in if T 0 = None \<or> T 1 = None \<or> T 2 = None \<or> T 3 = None \<or> T 4 = None
            \<or> T 5 = None \<or> T 6 = None \<or> T 7 = None
         then println ''ERR,BAD_SET_FORMAT'' s
         else
           (let bank = atoi (the (T 0));
                sw = atoi (the (T 1));
                ty = atoi (the (T 3));
                c = atoi (the (T 4));
                n = atoi (the (T 5));
                vp = atoi (the (T 6));
                vr = atoi (the (T 7))
            in if bank < 1 \<or> bank > int NUM_BANKS \<or> sw < 1 \<or> sw > int NUM_SW
               then println ''ERR,BAD_INDEX'' s
               else
                 (let b = nat (bank - 1);
                      sx = nat (sw - 1);
                      ty' = (if ty < 0 \<or> ty > uint (ActionType_val ACT_CC_ONE_SHOT)
                             then uint (ActionType_val ACT_NONE) else ty);
                      sl = \<lparr> label = set_label (the (T 2)),
                             type = of_int ty',
                             ch = of_int (clamp_int 1 16 c),
                             num = of_int (clamp_int 0 127 n),
                             vPress = of_int (clamp_int 0 127 vp),
                             vRelease = of_int (clamp_int 0 127 vr) \<rparr>
                  in println ''OK,SET''
                       (s\<lparr>cfg := (cfg s)(b := (cfg s b)(sx := sl)),
                          togState := (togState s)(b := (togState s b)(sx := False))\<rparr>))))"
  unfolding applySetLine_def Let_def case_prod_beta ptr_unfold
  by (rule refl)

lemma applySetLine_format:
  assumes "\<not> set_args_present line"
  shows "applySetLine atoi line s = println ''ERR,BAD_SET_FORMAT'' s"
proof -
  have "fst (nextTok (ptr 7 (Some (drop 4 line)))) = None"
    using assms by (simp add: tok_ptr set_args_present_def)
  then show ?thesis by (simp add: applySetLine_ptr del: ptr.simps)
qed

lemma set_args_tok:
  "set_args_present line \<Longrightarrow> k < 8 \<Longrightarrow>
   fst (nextTok (ptr k (Some (drop 4 line)))) = Some (set_arg line k)"
  by (simp add: tok_ptr set_args_present_def set_arg_def)

lemma applySetLine_index:
  assumes "set_args_present line" "\<not> set_index_ok atoi line"
  shows "applySetLine atoi line s = println ''ERR,BAD_INDEX'' s"
  using assms(2) unfolding applySetLine_ptr Let_def
  by (simp add: set_args_tok [OF assms(1)] set_index_ok_def not_le del: ptr.simps)

lemma applySetLine_ok:
  assumes "set_args_present line" "set_index_ok atoi line"
  shows "applySetLine atoi line s =
     println ''OK,SET''
       (s\<lparr>cfg := (cfg s)(fst (set_target atoi line) :=
                  (cfg s (fst (set_target atoi line)))(snd (set_target atoi line) := set_slot atoi line)),
          togState := (togState s)(fst (set_target atoi line) :=
                  (togState s (fst (set_target atoi line)))(snd (set_target atoi line) := False))\<rparr>)"
  using assms(2) unfolding applySetLine_ptr Let_def
  by (simp add: set_args_tok [OF assms(1)] set_index_ok_def not_le set_target_def set_slot_def
        del: ptr.simps)

lemma process_SET:
  "take 4 line = ''SET,'' \<Longrightarrow> processSerialLine atoi line s = applySetLine atoi line s"
  by (auto simp: processSerialLine_def)

text \<open>
  Claim C9, as the code has it. A \<open>SET\<close> line needs at least eight fields after the
  keyword; fields beyond the eighth are ignored. When a field is missing the answer is
  \<open>ERR,BAD_SET_FORMAT\<close>; when the bank is outside 1..4 or the switch outside 1..6 the
  answer is \<open>ERR,BAD_INDEX\<close>; in both cases nothing but the serial output changes, so
  the slot grid, the toggle bits and the active bank are as before. Otherwise the answer
  is \<open>OK,SET\<close> and the addressed slot is built from the first eight fields only.
\<close>

theorem C9_set_errors:
  assumes "take 4 line = ''SET,''"
  shows "(\<not> set_args_present line \<longrightarrow>
            processSerialLine atoi line s = s\<lparr>serial_out := serial_out s @ [''ERR,BAD_SET_FORMAT'']\<rparr>)
       \<and> (set_args_present line \<and> \<not> set_index_ok atoi line \<longrightarrow>
            processSerialLine atoi line s = s\<lparr>serial_out := serial_out s @ [''ERR,BAD_INDEX'']\<rparr>)
       \<and> (\<not> set_args_present line \<or> \<not> set_index_ok atoi line \<longrightarrow>
            cfg (processSerialLine atoi line s) = cfg s
          \<and> togState (processSerialLine atoi line s) = togState s
          \<and> currentBank (processSerialLine atoi line s) = currentBank s)
       \<and> (set_args_present line \<and> set_index_ok atoi line \<longrightarrow>
            serial_out (processSerialLine atoi line s) = serial_out s @ [''OK,SET'']
          \<and> cfg (processSerialLine atoi line s) (fst (set_target atoi line)) (snd (set_target atoi line))
              = set_slot atoi line)"
proof (cases "set_args_present line")
  case False
  then show ?thesis
    by (simp add: process_SET [OF assms] applySetLine_format println_def)
next
  case True
  show ?thesis
  proof (cases "set_index_ok atoi line")
    case False
    with True show ?thesis
      by (simp add: process_SET [OF assms] applySetLine_index println_def)
  next
    case ok: True
    with True show ?thesis
      by (simp add: process_SET [OF assms] applySetLine_ok)
  qed
qed

lemma t1: "fields (drop 4 nine_field_line) = [''1'', ''1'', ''VOL_'', ''1'', ''1'', ''7'', ''100'', ''0'', ''junk'']"
  by (simp add: nine_field_line_def)

lemma atoi_ref_simps:
  "atoi_ref ''0'' = 0" "atoi_ref ''1'' = 1" "atoi_ref ''2'' = 2" "atoi_ref ''3'' = 3"
  "atoi_ref ''4'' = 4" "atoi_ref ''5'' = 5" "atoi_ref ''6'' = 6" "atoi_ref ''7'' = 7"
  "atoi_ref ''100'' = 100" "atoi_ref ''9'' = 9"
  by (simp_all add: atoi_ref_def is_space_def is_digit_def)

lemma trim_simple: "trim_spaces ''1'' = ''1''" "trim_spaces ''9'' = ''9''"
  by (simp_all add: trim_spaces_def)

lemma upt_0_4: "[0..<4] = [0, 1, 2, 3]"
  by (simp add: eval_nat_numeral upt_rec)

lemma upt_0_6: "[0..<6] = [0, 1, 2, 3, 4, 5]"
  by (simp add: eval_nat_numeral upt_rec)

lemma set_label_4: "set_label [a, b, c, d] = map (\<lambda>x. if x = CHR ''_'' then CHR '' '' else x) [a, b, c, d]"
  by (simp add: set_label_def upt_0_4)

text \<open>
  Claim C9 as stated speaks of exactly eight tokens. A line with a ninth token is accepted
  all the same.
\<close>

theorem C9_extra_token_accepted:
  "length (fields (drop 4 nine_field_line)) = 9
   \<and> serial_out (processSerialLine atoi_ref nine_field_line (power_on erased_image)) = [''OK,SET'']
   \<and> label (cfg (processSerialLine atoi_ref nine_field_line (power_on erased_image)) 0 0) = ''VOL ''"
proof -
  have p: "set_args_present nine_field_line" by (simp add: set_args_present_def t1)
  have a: "set_arg nine_field_line 0 = ''1''" "set_arg nine_field_line (Suc 0) = ''1''"
     "set_arg nine_field_line 2 = ''VOL_''"
    by (simp_all add: set_arg_def t1 trim_spaces_def)
  have i: "set_index_ok atoi_ref nine_field_line" by (simp add: set_index_ok_def a atoi_ref_simps)
  have t: "set_target atoi_ref nine_field_line = (0, 0)" by (simp add: set_target_def a atoi_ref_simps)
  have k: "take 4 nine_field_line = ''SET,''" by (simp add: nine_field_line_def)
  show ?thesis
    by (simp add: process_SET [OF k] applySetLine_ok [OF p i] t t1 power_on_def set_slot_def a
        set_label_4)
qed

theorem C9_set_errors_witness:
  "take 4 ''SET,1,1'' = ''SET,'' \<and> \<not> set_args_present ''SET,1,1''
   \<and> serial_out (processSerialLine atoi_ref ''SET,1,1'' (power_on erased_image)) = [''ERR,BAD_SET_FORMAT'']
   \<and> take 4 ''SET,9,1,VOL_,1,1,7,100,0'' = ''SET,'' \<and> set_args_present ''SET,9,1,VOL_,1,1,7,100,0''
   \<and> \<not> set_index_ok atoi_ref ''SET,9,1,VOL_,1,1,7,100,0''
   \<and> serial_out (processSerialLine atoi_ref ''SET,9,1,VOL_,1,1,7,100,0'' (power_on erased_image)) = [''ERR,BAD_INDEX'']
   \<and> cfg (processSerialLine atoi_ref ''SET,9,1,VOL_,1,1,7,100,0'' (power_on erased_image)) = cfg (power_on erased_image)
   \<and> take 4 ''SET,1,1,VOL_,1,1,7,100,0'' = ''SET,'' \<and> set_args_present ''SET,1,1,VOL_,1,1,7,100,0''
   \<and> set_index_ok atoi_ref ''SET,1,1,VOL_,1,1,7,100,0''
   \<and> serial_out (processSerialLine atoi_ref ''SET,1,1,VOL_,1,1,7,100,0'' (power_on erased_image)) = [''OK,SET'']"
proof -
  have 1: "take 4 ''SET,1,1'' = ''SET,''" by simp
  have 2: "\<not> set_args_present ''SET,1,1''" by (simp add: set_args_present_def)
  have 3: "take 4 ''SET,9,1,VOL_,1,1,7,100,0'' = ''SET,''" by simp
  have 4: "set_args_present ''SET,9,1,VOL_,1,1,7,100,0''" by (simp add: set_args_present_def)
  have 5: "\<not> set_index_ok atoi_ref ''SET,9,1,VOL_,1,1,7,100,0''"
    by (simp add: set_index_ok_def set_arg_def trim_simple atoi_ref_simps)
  have 6: "take 4 ''SET,1,1,VOL_,1,1,7,100,0'' = ''SET,''" by simp
  have 7: "set_args_present ''SET,1,1,VOL_,1,1,7,100,0''" by (simp add: set_args_present_def)
  have 8: "set_index_ok atoi_ref ''SET,1,1,VOL_,1,1,7,100,0''"
    by (simp add: set_index_ok_def set_arg_def trim_simple atoi_ref_simps)
  from C9_set_errors [OF 1, of atoi_ref "power_on erased_image"]
       C9_set_errors [OF 3, of atoi_ref "power_on erased_image"]
       C9_set_errors [OF 6, of atoi_ref "power_on erased_image"]
       1 2 3 4 5 6 7 8
  show ?thesis by (simp add: power_on_def)
qed

subsection \<open>Receiving characters\<close>

lemma serial_char_store:
  "c \<noteq> CHR 0x0A \<Longrightarrow> length (lineBuf s) < 219 \<Longrightarrow>
   serial_char atoi c s = s\<lparr>lineBuf := lineBuf s @ [c]\<rparr>"
  by (simp add: serial_char_def)

lemma serial_char_overflow:
  "c \<noteq> CHR 0x0A \<Longrightarrow> length (lineBuf s) = 219 \<Longrightarrow>
   serial_char atoi c s = println ''ERR,LINE_TOO_LONG'' (s\<lparr>lineBuf := []\<rparr>)"
  by (simp add: serial_char_def)

lemma serial_char_newline:
  "length (lineBuf s) \<le> 219 \<Longrightarrow>
   serial_char atoi (CHR 0x0A) s =
     (processSerialLine atoi
        (cstr (if lineBuf s \<noteq> [] \<and> last (lineBuf s) = CHR 0x0D then butlast (lineBuf s)
               else lineBuf s)) s)\<lparr>lineBuf := []\<rparr>"
  by (simp add: serial_char_def Let_def)

lemma serial_fill:
  "CHR 0x0A \<notin> set cs \<Longrightarrow> length (lineBuf s) + length cs \<le> 219 \<Longrightarrow>
   fold (serial_char atoi) cs s = s\<lparr>lineBuf := lineBuf s @ cs\<rparr>"
proof (induction cs arbitrary: s)
  case Nil
  then show ?case by simp
next
  case (Cons c cs)
  from Cons.prems have c: "c \<noteq> CHR 0x0A" and l: "length (lineBuf s) < 219" by auto
  from Cons.prems show ?case
    by (simp add: serial_char_store [OF c l] Cons.IH)
qed

lemma long_line_tail_dispatched:
  assumes "length pre = 220" "CHR 0x0A \<notin> set pre" "CHR 0x0A \<notin> set cmd" "length cmd \<le> 219"
  shows "fold (serial_char atoi) (pre @ cmd @ [CHR 0x0A]) (s\<lparr>lineBuf := []\<rparr>) =
     (processSerialLine atoi
        (cstr (if cmd \<noteq> [] \<and> last cmd = CHR 0x0D then butlast cmd else cmd))
        (println ''ERR,LINE_TOO_LONG'' (s\<lparr>lineBuf := cmd\<rparr>)))\<lparr>lineBuf := []\<rparr>"
proof -
  let ?s0 = "s\<lparr>lineBuf := []\<rparr>"
  from assms(1) have ne: "pre \<noteq> []" by auto
  then have split: "pre = butlast pre @ [last pre]" by simp
  from assms(2) ne have x: "last pre \<noteq> CHR 0x0A" by (metis last_in_set)
  from assms(2) have b: "CHR 0x0A \<notin> set (butlast pre)" by (auto dest: in_set_butlastD)
  have 1: "fold (serial_char atoi) (butlast pre) ?s0 = s\<lparr>lineBuf := butlast pre\<rparr>"
    using assms(1) b by (subst serial_fill) auto
  have 2: "serial_char atoi (last pre) (s\<lparr>lineBuf := butlast pre\<rparr>)
         = println ''ERR,LINE_TOO_LONG'' ?s0"
    using assms(1) x by (subst serial_char_overflow) auto
  have 3: "fold (serial_char atoi) cmd (println ''ERR,LINE_TOO_LONG'' ?s0)
         = println ''ERR,LINE_TOO_LONG'' (s\<lparr>lineBuf := cmd\<rparr>)"
    using assms(3,4) by (subst serial_fill) (auto simp: println_def)
  have "fold (serial_char atoi) (pre @ cmd @ [CHR 0x0A]) ?s0
      = serial_char atoi (CHR 0x0A) (fold (serial_char atoi) cmd
          (serial_char atoi (last pre) (fold (serial_char atoi) (butlast pre) ?s0)))"
    by (subst split) simp
  also have "\<dots> = serial_char atoi (CHR 0x0A) (println ''ERR,LINE_TOO_LONG'' (s\<lparr>lineBuf := cmd\<rparr>))"
    by (simp only: 1 2 3)
  finally show ?thesis
    using assms(4) by (simp add: serial_char_newline)
qed

text \<open>
  Claim C8 at a line of 224 characters: 220 times \<open>x\<close> followed by \<open>SAVE\<close>. The
  220th character empties the buffer and produces \<open>ERR,LINE_TOO_LONG\<close>, but the rest
  of the same line is collected afresh and executed at the line terminator: the EEPROM,
  which carried no marker, is written.
\<close>

theorem C8_long_line_tail_is_executed:
  "serial_out (fold (serial_char atoi_ref) (replicate 220 (CHR ''x'') @ ''SAVE'' @ [CHR 0x0A])
      (power_on erased_image)) = [''ERR,LINE_TOO_LONG'', ''OK,SAVED'']
   \<and> EEPROM_get32 0 (eeprom (power_on erased_image)) \<noteq> EEPROM_MAGIC
   \<and> EEPROM_get32 0 (eeprom (fold (serial_char atoi_ref)
        (replicate 220 (CHR ''x'') @ ''SAVE'' @ [CHR 0x0A]) (power_on erased_image))) = EEPROM_MAGIC"
proof -
  have e: "power_on erased_image = (power_on erased_image)\<lparr>lineBuf := []\<rparr>"
    by (simp add: power_on_def)
  have p: "processSerialLine atoi_ref ''SAVE'' s = saveAllToEEPROM s" for s
    by (simp add: processSerialLine_def)
  have c: "cstr ''SAVE'' = ''SAVE''" by (simp add: cstr_def)
  have "fold (serial_char atoi_ref) (replicate 220 (CHR ''x'') @ ''SAVE'' @ [CHR 0x0A]) (power_on erased_image)
      = (saveAllToEEPROM (println ''ERR,LINE_TOO_LONG'' ((power_on erased_image)\<lparr>lineBuf := ''SAVE''\<rparr>)))\<lparr>lineBuf := []\<rparr>"
    by (subst e, subst long_line_tail_dispatched) (simp_all add: c p)
  then show ?thesis
    using save_marker [of "println ''ERR,LINE_TOO_LONG'' ((power_on erased_image)\<lparr>lineBuf := ''SAVE''\<rparr>)"]
    by (simp add: power_on_def EEPROM_get32_def erased_image_def EEPROM_MAGIC_def)
qed

subsection \<open>What each operation leaves alone\<close>

lemma handleSwitchEvent_frame [simp]:
  "cfg (handleSwitchEvent i p s) = cfg s"
  "eeprom (handleSwitchEvent i p s) = eeprom s"
  "serial_out (handleSwitchEvent i p s) = serial_out s"
  "lineBuf (handleSwitchEvent i p s) = lineBuf s"
  "chord45Latched (handleSwitchEvent i p s) = chord45Latched s"
  "chord56Latched (handleSwitchEvent i p s) = chord56Latched s"
  "pendingPress (handleSwitchEvent i p s) = pendingPress s"
  "pendingAt (handleSwitchEvent i p s) = pendingAt s"
  "sentPress (handleSwitchEvent i p s) = sentPress s"
  "rawState (handleSwitchEvent i p s) = rawState s"
  "stableState (handleSwitchEvent i p s) = stableState s"
  "lastRaw (handleSwitchEvent i p s) = lastRaw s"
  "lastChangeMs (handleSwitchEvent i p s) = lastChangeMs s"
  "events (handleSwitchEvent i p s) = events s @ [SwitchEvent i p]"
  by (simp_all add: handleSwitchEvent_def Let_def sendCC_def sendPC_def doBankUp_def
        doBankDown_def split: option.splits ActionType.splits)

lemma load_frame [simp]:
  "togState (snd (loadAllFromEEPROM s)) = togState s"
  "currentBank (snd (loadAllFromEEPROM s)) = currentBank s"
  "eeprom (snd (loadAllFromEEPROM s)) = eeprom s"
  "midi_out (snd (loadAllFromEEPROM s)) = midi_out s"
  "events (snd (loadAllFromEEPROM s)) = events s"
  "lineBuf (snd (loadAllFromEEPROM s)) = lineBuf s"
  "chord45Latched (snd (loadAllFromEEPROM s)) = chord45Latched s"
  "chord56Latched (snd (loadAllFromEEPROM s)) = chord56Latched s"
  "pendingPress (snd (loadAllFromEEPROM s)) = pendingPress s"
  "pendingAt (snd (loadAllFromEEPROM s)) = pendingAt s"
  "sentPress (snd (loadAllFromEEPROM s)) = sentPress s"
  "rawState (snd (loadAllFromEEPROM s)) = rawState s"
  "stableState (snd (loadAllFromEEPROM s)) = stableState s"
  "lastRaw (snd (loadAllFromEEPROM s)) = lastRaw s"
  "lastChangeMs (snd (loadAllFromEEPROM s)) = lastChangeMs s"
  by (simp_all add: loadAllFromEEPROM_def)

lemma save_frame [simp]:
  "midi_out (saveAllToEEPROM s) = midi_out s"
  "events (saveAllToEEPROM s) = events s"
  "lineBuf (saveAllToEEPROM s) = lineBuf s"
  "chord45Latched (saveAllToEEPROM s) = chord45Latched s"
  "chord56Latched (saveAllToEEPROM s) = chord56Latched s"
  "pendingPress (saveAllToEEPROM s) = pendingPress s"
  "pendingAt (saveAllToEEPROM s) = pendingAt s"
  "sentPress (saveAllToEEPROM s) = sentPress s"
  "rawState (saveAllToEEPROM s) = rawState s"
  "stableState (saveAllToEEPROM s) = stableState s"
  "lastRaw (saveAllToEEPROM s) = lastRaw s"
  "lastChangeMs (saveAllToEEPROM s) = lastChangeMs s"
  by (simp_all add: saveAllToEEPROM_def)

lemma fold_default_frame:
  "f (fold (\<lambda>(b, sw) s.
        s\<lparr>cfg := (cfg s)(b := (cfg s b)(sw := d)),
          togState := (togState s)(b := (togState s b)(sw := False))\<rparr>) ps s) = f s"
  if "\<And>s c g. f (s\<lparr>cfg := c, togState := g\<rparr>) = f s"
  using that by (induction ps arbitrary: s) (auto split: prod.splits)

lemma setDefaultConfig_togState:
  "togState (setDefaultConfig s) b sw = (if b < 4 \<and> sw < 6 then False else togState s b sw)"
proof -
  have 1: "togState (fold (\<lambda>b s. s\<lparr>cfg := F b s\<rparr>) bs s) = togState s" for F bs s
    by (induction bs arbitrary: s) auto
  have 2: "togState (fold (\<lambda>(b, sw) s.
        s\<lparr>cfg := (cfg s)(b := (cfg s b)(sw := d)),
          togState := (togState s)(b := (togState s b)(sw := False))\<rparr>) ps s) b sw
      = (if (b, sw) \<in> set ps then False else togState s b sw)" for ps d s
    by (induction ps arbitrary: s) (auto split: prod.splits)
  show ?thesis unfolding setDefaultConfig_def Let_def
    by (simp only: 1 2 set_slot_indices) simp
qed

subsection \<open>The state after \<open>setup()\<close>\<close>

lemma fold_cfg_tog_shape:
  assumes "\<And>x s. \<exists>c g. f x s = s\<lparr>cfg := c, togState := g\<rparr>"
  shows "\<exists>c g. fold f xs s = s\<lparr>cfg := c, togState := g\<rparr>"
proof (induction xs arbitrary: s)
  case Nil
  show ?case by (rule exI [of _ "cfg s"], rule exI [of _ "togState s"]) simp
next
  case (Cons x xs)
  obtain c1 g1 where 1: "f x s = s\<lparr>cfg := c1, togState := g1\<rparr>" using assms by blast
  obtain c g where 2: "fold f xs (f x s) = (f x s)\<lparr>cfg := c, togState := g\<rparr>"
    using Cons by blast
  show ?case using 2 by (intro exI [of _ c] exI [of _ g]) (simp add: 1)
qed

lemma setDefaultConfig_shape: "\<exists>c g. setDefaultConfig s = s\<lparr>cfg := c, togState := g\<rparr>"
proof -
  let ?f = "\<lambda>(b, sw) s.
        s\<lparr>cfg := (cfg s)(b := (cfg s b)(sw := default_slot)),
          togState := (togState s)(b := (togState s b)(sw := False))\<rparr>"
  let ?h = "\<lambda>b s.
            s\<lparr>cfg := (cfg s)(b := (cfg s b)
                 (4 := (cfg s b 4)\<lparr>type := ActionType_val ACT_BANK_DOWN, label := ''DWN ''\<rparr>,
                  5 := (cfg s b 5)\<lparr>type := ActionType_val ACT_BANK_UP, label := ''UP  ''\<rparr>))\<rparr>"
  have f: "\<exists>c g. ?f x s = s\<lparr>cfg := c, togState := g\<rparr>" for x s
    by (cases x) auto
  have h: "\<exists>c g. ?h x s = s\<lparr>cfg := c, togState := g\<rparr>" for x s
    by (rule exI [of _ "cfg (?h x s)"], rule exI [of _ "togState s"]) simp
  obtain c g where 1: "fold ?f slot_indices s = s\<lparr>cfg := c, togState := g\<rparr>"
    using fold_cfg_tog_shape [of ?f, OF f] by blast
  obtain c' g' where 2: "fold ?h [0..<NUM_BANKS] (fold ?f slot_indices s)
      = (fold ?f slot_indices s)\<lparr>cfg := c', togState := g'\<rparr>"
    using fold_cfg_tog_shape [of ?h, OF h] by blast
  show ?thesis unfolding setDefaultConfig_def Let_def 2
    by (rule exI [of _ c'], rule exI [of _ g']) (simp add: 1)
qed

lemma setDefaultConfig_frame [simp]:
  "currentBank (setDefaultConfig s) = currentBank s"
  "eeprom (setDefaultConfig s) = eeprom s"
  "serial_out (setDefaultConfig s) = serial_out s"
  "midi_out (setDefaultConfig s) = midi_out s"
  "events (setDefaultConfig s) = events s"
  "lineBuf (setDefaultConfig s) = lineBuf s"
  "chord45Latched (setDefaultConfig s) = chord45Latched s"
  "chord56Latched (setDefaultConfig s) = chord56Latched s"
  "pendingPress (setDefaultConfig s) = pendingPress s"
  "pendingAt (setDefaultConfig s) = pendingAt s"
  "sentPress (setDefaultConfig s) = sentPress s"
  "rawState (setDefaultConfig s) = rawState s"
  "stableState (setDefaultConfig s) = stableState s"
  "lastRaw (setDefaultConfig s) = lastRaw s"
  "lastChangeMs (setDefaultConfig s) = lastChangeMs s"
  using setDefaultConfig_shape [of s] by auto

lemma less_6: "i < 6 \<longleftrightarrow> i = 0 \<or> i = Suc 0 \<or> i = 2 \<or> i = 3 \<or> i = 4 \<or> i = (5::nat)"
  by arith

lemma setup_fields:
  "currentBank (setup_sketch t pins e) = 1"
  "eeprom (setup_sketch t pins e) = e"
  "midi_out (setup_sketch t pins e) = []"
  "events (setup_sketch t pins e) = []"
  "lineBuf (setup_sketch t pins e) = []"
  "chord45Latched (setup_sketch t pins e) = False"
  "chord56Latched (setup_sketch t pins e) = False"
  "pendingPress (setup_sketch t pins e) = (\<lambda>i. False)"
  "sentPress (setup_sketch t pins e) = (\<lambda>i. False)"
  "stableState (setup_sketch t pins e) i = (i < 6 \<and> pins i)"
  "lastRaw (setup_sketch t pins e) i = (i < 6 \<and> pins i)"
  "lastChangeMs (setup_sketch t pins e) i = (if i < 6 then t else 0)"
  "togState (setup_sketch t pins e) b sw = False"
  by (auto simp add: setup_sketch_def Let_def upt_0_6 power_on_def setDefaultConfig_togState
        less_6)

lemma setup_cfg_loaded:
  "EEPROM_get32 EEPROM_MAGIC_ADDR e = EEPROM_MAGIC \<Longrightarrow> b < 4 \<Longrightarrow> sw < 6 \<Longrightarrow>
   cfg (setup_sketch t pins e) b sw = eepromReadSlot b sw e"
proof -
  have "eeprom (setDefaultConfig s) = eeprom s" for s by simp
  then show "EEPROM_get32 EEPROM_MAGIC_ADDR e = EEPROM_MAGIC \<Longrightarrow> b < 4 \<Longrightarrow> sw < 6 \<Longrightarrow>
   cfg (setup_sketch t pins e) b sw = eepromReadSlot b sw e"
    by (simp add: setup_sketch_def Let_def load_cfg upt_0_6 power_on_def)
qed

subsection \<open>Loading: what is not sanitized, what is not reset\<close>

lemma marker_only_magic: "EEPROM_get32 EEPROM_MAGIC_ADDR marker_only_image = EEPROM_MAGIC"
  by (simp add: EEPROM_get32_def marker_only_image_def EEPROM_MAGIC_def)

text \<open>
  Claim C1 at an EEPROM that carries the marker and is erased elsewhere. The load
  succeeds; type, channel and label of the decoded slot are sanitized (see
  \<open>read_slot_sanitized\<close>), but \<open>num\<close>, \<open>vPress\<close> and \<open>vRelease\<close> are taken over as
  stored: 255, outside 0..127.
\<close>

theorem C1_load_keeps_unclamped_values:
  "EEPROM_get32 EEPROM_MAGIC_ADDR (eeprom (power_on marker_only_image)) = EEPROM_MAGIC
   \<and> fst (loadAllFromEEPROM (power_on marker_only_image))
   \<and> cfg (snd (loadAllFromEEPROM (power_on marker_only_image))) 0 0
       = \<lparr> label = ''    '', type = 0, ch = 1, num = 255, vPress = 255, vRelease = 255 \<rparr>
   \<and> \<not> num (cfg (snd (loadAllFromEEPROM (power_on marker_only_image))) 0 0) \<le> 127"
proof -
  have m: "EEPROM_get32 EEPROM_MAGIC_ADDR (eeprom (power_on marker_only_image)) = EEPROM_MAGIC"
    using marker_only_magic by (simp add: power_on_def)
  have f: "fst (loadAllFromEEPROM (power_on marker_only_image))"
    using m by (simp add: loadAllFromEEPROM_def)
  have ff: "char_of_byte 0xFF = CHR 0xFF" by code_simp
  have c: "cfg (snd (loadAllFromEEPROM (power_on marker_only_image))) 0 0
       = \<lparr> label = ''    '', type = 0, ch = 1, num = 255, vPress = 255, vRelease = 255 \<rparr>"
  proof -
    have e: "eeprom (power_on marker_only_image) = marker_only_image" by (simp add: power_on_def)
    show ?thesis
      by (simp add: load_cfg [OF m] e eepromReadSlot_def slotAddr_def
          marker_only_image_def Let_def ff sanitize_label_char_def)
  qed
  show ?thesis using m f by (simp add: c)
qed

lemma toggle_line_facts:
  "take 4 toggle_line = ''SET,''" "set_args_present toggle_line"
  "set_index_ok atoi_ref toggle_line" "set_target atoi_ref toggle_line = (0, 0)"
  "set_slot atoi_ref toggle_line
     = \<lparr> label = ''TOG '', type = 5, ch = 1, num = 7, vPress = 100, vRelease = 0 \<rparr>"
proof -
  have f: "fields (drop 4 toggle_line) = [''1'', ''1'', ''TOG_'', ''5'', ''1'', ''7'', ''100'', ''0'']"
    by (simp add: toggle_line_def)
  have a: "set_arg toggle_line 0 = ''1''" "set_arg toggle_line (Suc 0) = ''1''"
    "set_arg toggle_line 2 = ''TOG_''" "set_arg toggle_line 3 = ''5''"
    "set_arg toggle_line 4 = ''1''" "set_arg toggle_line 5 = ''7''"
    "set_arg toggle_line 6 = ''100''" "set_arg toggle_line 7 = ''0''"
    by (simp_all add: set_arg_def f trim_spaces_def)
  show "take 4 toggle_line = ''SET,''" by (simp add: toggle_line_def)
  show "set_args_present toggle_line" by (simp add: set_args_present_def f)
  show "set_index_ok atoi_ref toggle_line" by (simp add: set_index_ok_def a atoi_ref_simps)
  show "set_target atoi_ref toggle_line = (0, 0)" by (simp add: set_target_def a atoi_ref_simps)
  show "set_slot atoi_ref toggle_line
     = \<lparr> label = ''TOG '', type = 5, ch = 1, num = 7, vPress = 100, vRelease = 0 \<rparr>"
    by (simp add: set_slot_def a atoi_ref_simps set_label_4 clamp_int_def)
qed

lemma process_simple:
  "processSerialLine atoi ''SAVE'' s = saveAllToEEPROM s"
  "processSerialLine atoi ''DUMP'' s = dumpConfig s"
  "EEPROM_get32 EEPROM_MAGIC_ADDR (eeprom s) = EEPROM_MAGIC \<Longrightarrow>
     processSerialLine atoi ''LOAD'' s = snd (loadAllFromEEPROM s)"
  by (simp_all add: processSerialLine_def loadAllFromEEPROM_def)

lemma handle_toggle_press:
  assumes "currentBank s = 1" "type (cfg s 0 i) = 5"
  shows "handleSwitchEvent i True s =
     s\<lparr>events := events s @ [SwitchEvent i True],
       togState := (togState s)(0 := (togState s 0)(i := \<not> togState s 0 i)),
       midi_out := midi_out s @ [ControlChange (ch (cfg s 0 i)) (num (cfg s 0 i))
           (if \<not> togState s 0 i then vPress (cfg s 0 i) else 0)]\<rparr>"
  using assms by (simp add: handleSwitchEvent_def Let_def ActionType_of_def sendCC_def)

text \<open>
  Claim C5 on the \<open>LOAD\<close> path. Bank 1, switch 1 is made a toggling control change
  and saved; one press sets its toggle bit and sends the press value 100. \<open>LOAD\<close> then
  rewrites the slot from the EEPROM but leaves the toggle bit set (\<open>load_togState\<close>),
  so the next press sends 0 and not the press value. The \<open>SET\<close> path does reset the
  bit (\<open>applySetLine_ok\<close>).
\<close>

theorem C5_load_keeps_toggle_bit:
  "(let s1 = processSerialLine atoi_ref toggle_line (boot erased_image);
        s2 = processSerialLine atoi_ref ''SAVE'' s1;
        s3 = handleSwitchEvent 0 True s2;
        s4 = processSerialLine atoi_ref ''LOAD'' s3;
        s5 = handleSwitchEvent 0 True s4
    in serial_out s4 = [''OK,READY'', ''OK,SET'', ''OK,SAVED'', ''OK,LOADED'']
     \<and> cfg s4 0 0 = \<lparr> label = ''TOG '', type = 5, ch = 1, num = 7, vPress = 100, vRelease = 0 \<rparr>
     \<and> togState s4 0 0
     \<and> midi_out s5 = [ControlChange 1 7 100, ControlChange 1 7 0])"
proof -
  define s1 where "s1 = processSerialLine atoi_ref toggle_line (boot erased_image)"
  define s2 where "s2 = processSerialLine atoi_ref ''SAVE'' s1"
  define s3 where "s3 = handleSwitchEvent 0 True s2"
  define s4 where "s4 = processSerialLine atoi_ref ''LOAD'' s3"
  define s5 where "s5 = handleSwitchEvent 0 True s4"
  let ?sl = "\<lparr> label = ''TOG '', type = 5, ch = 1, num = 7, vPress = 100, vRelease = 0 \<rparr>"
  have nm: "EEPROM_get32 EEPROM_MAGIC_ADDR erased_image \<noteq> EEPROM_MAGIC"
    by (simp add: EEPROM_get32_def erased_image_def EEPROM_MAGIC_def)
  have so0: "serial_out (boot erased_image) = [''OK,READY'']"
    using nm by (simp add: boot_def setup_sketch_def Let_def loadAllFromEEPROM_def upt_0_6 power_on_def)
  have s1: "s1 = println ''OK,SET''
       ((boot erased_image)\<lparr>cfg := (cfg (boot erased_image))(0 := (cfg (boot erased_image) 0)(0 := ?sl)),
          togState := (togState (boot erased_image))(0 := (togState (boot erased_image) 0)(0 := False))\<rparr>)"
    unfolding s1_def
    by (simp add: process_SET toggle_line_facts applySetLine_ok)
  have c1: "cfg s1 0 0 = ?sl" "currentBank s1 = 1" "togState s1 0 0 = False" "midi_out s1 = []"
    "serial_out s1 = [''OK,READY'', ''OK,SET'']"
    by (simp_all add: s1 boot_def setup_fields so0 [unfolded boot_def])
  have st: "storable (cfg s1 0 0)" by (simp add: c1 storable_def)
  have s2: "s2 = saveAllToEEPROM s1" by (simp add: s2_def process_simple)
  have m3: "EEPROM_get32 EEPROM_MAGIC_ADDR (eeprom s3) = EEPROM_MAGIC"
    using save_marker [of s1] by (simp add: s3_def s2)
  have c2: "cfg s2 0 0 = ?sl" "currentBank s2 = 1" "togState s2 0 0 = False" "midi_out s2 = []"
    by (simp_all add: s2 c1)
  have s3: "togState s3 0 0" "midi_out s3 = [ControlChange 1 7 100]" "currentBank s3 = 1"
    "eeprom s3 = eeprom s2" "serial_out s3 = [''OK,READY'', ''OK,SET'', ''OK,SAVED'']"
    unfolding s3_def by (simp_all add: handle_toggle_press c2 s2 c1)
  have s4: "s4 = snd (loadAllFromEEPROM s3)" by (simp add: s4_def process_simple(3) [OF m3])
  have c4: "cfg s4 0 0 = ?sl"
    using save_read [of 0 0 s1, OF _ _ st] by (simp add: s4 load_cfg [OF m3] s3 s2 c1)
  have t4: "togState s4 0 0" "currentBank s4 = 1" "midi_out s4 = [ControlChange 1 7 100]"
    by (simp_all add: s4 s3)
  have o4: "serial_out s4 = [''OK,READY'', ''OK,SET'', ''OK,SAVED'', ''OK,LOADED'']"
    using m3 by (simp add: s4 loadAllFromEEPROM_def s3)
  have m5: "midi_out s5 = [ControlChange 1 7 100, ControlChange 1 7 0]"
    unfolding s5_def by (simp add: handle_toggle_press c4 t4)
  show ?thesis
    unfolding Let_def s1_def [symmetric] s2_def [symmetric] s3_def [symmetric]
      s4_def [symmetric] s5_def [symmetric]
    using o4 c4 t4 m5 by simp
qed

subsection \<open>SET, SAVE, power cycle, LOAD, DUMP\<close>

lemma process_set_cfg:
  assumes "take 4 l = ''SET,''" "set_args_present l" "set_index_ok atoi l"
  shows "cfg (processSerialLine atoi l s) b sw =
           (if (b, sw) = set_target atoi l then set_slot atoi l else cfg s b sw)"
  by (cases "set_target atoi l") (auto simp: process_SET [OF assms(1)] applySetLine_ok [OF assms(2,3)])

lemma fold_set_invariant:
  assumes "\<forall>l \<in> set lines. take 4 l = ''SET,'' \<and> set_args_present l \<and> set_index_ok atoi l
             \<and> P (set_slot atoi l)"
  shows "\<forall>l \<in> set lines.
           P (cfg (fold (processSerialLine atoi) lines s) (fst (set_target atoi l)) (snd (set_target atoi l)))"
  using assms
proof (induction lines rule: rev_induct)
  case Nil
  then show ?case by simp
next
  case (snoc x xs)
  from snoc.prems have x: "take 4 x = ''SET,''" "set_args_present x" "set_index_ok atoi x"
    "P (set_slot atoi x)" by auto
  from snoc have ih: "\<forall>l \<in> set xs.
     P (cfg (fold (processSerialLine atoi) xs s) (fst (set_target atoi l)) (snd (set_target atoi l)))"
    by auto
  show ?case
  proof
    fix l assume l: "l \<in> set (xs @ [x])"
    show "P (cfg (fold (processSerialLine atoi) (xs @ [x]) s) (fst (set_target atoi l)) (snd (set_target atoi l)))"
    proof (cases "set_target atoi l = set_target atoi x")
      case True
      then show ?thesis using x(4) by (simp add: process_set_cfg [OF x(1,2,3)])
    next
      case False
      with l have "l \<in> set xs" by auto
      moreover from False
      have "(fst (set_target atoi l), snd (set_target atoi l)) \<noteq> set_target atoi x" by simp
      ultimately show ?thesis using ih
        by (simp add: process_set_cfg [OF x(1,2,3)])
    qed
  qed
qed

lemma set_fields_subset: "k < length (fields r) \<Longrightarrow> set (fields r ! k) \<subseteq> set r"
proof (induction r arbitrary: k)
  case Nil
  then show ?case by simp
next
  case (Cons c cs)
  show ?case
  proof (cases "c = CHR '',''")
    case True
    with Cons show ?thesis by (cases k) auto
  next
    case False
    obtain f fs where f: "fields cs = f # fs" by (cases "fields cs") auto
    with Cons False show ?thesis
      by (cases k) (force simp: f)+
  qed
qed

lemma set_trim_spaces: "set (trim_spaces x) \<subseteq> set x"
  unfolding trim_spaces_def
  by (metis set_dropWhileD set_rev subsetI)

lemma set_label_props:
  "length (set_label t) = 4"
  "c \<in> set (set_label t) \<Longrightarrow> c = CHR '' '' \<or> c \<in> set (take 4 t)"
proof -
  show "length (set_label t) = 4" by (simp add: set_label_def)
  assume "c \<in> set (set_label t)"
  then obtain i where i: "i < 4" "c = (let c = (if i < length t then t ! i else CHR '' '')
              in if c = CHR ''_'' then CHR '' '' else c)"
    by (auto simp: set_label_def)
  show "c = CHR '' '' \<or> c \<in> set (take 4 t)"
  proof (cases "i < length t")
    case True
    with i have "t ! i \<in> set (take 4 t)" by (auto simp: in_set_conv_nth intro!: exI [of _ i])
    with i True show ?thesis by (auto simp: Let_def)
  next
    case False
    with i show ?thesis by (simp add: Let_def)
  qed
qed

lemma u8_of_int_le:
  "0 \<le> x \<Longrightarrow> x \<le> 255 \<Longrightarrow> ((of_int x :: u8) \<le> of_int y) = (x \<le> y)" if "0 \<le> y" "y \<le> 255"
  using that by (simp add: word_le_def uint_word_of_int)

lemma set_slot_storable:
  assumes "CHR 0xFF \<notin> set (take 4 (set_arg l 2))" "CHR 0x00 \<notin> set (take 4 (set_arg l 2))"
  shows "storable (set_slot atoi l)"
proof -
  have lab: "CHR 0xFF \<notin> set (set_label (set_arg l 2))" "CHR 0x00 \<notin> set (set_label (set_arg l 2))"
    using assms set_label_props(2) [of _ "set_arg l 2"] by auto
  have ty: "type (set_slot atoi l) \<le> 6"
    by (simp add: set_slot_def word_le_def uint_word_of_int)
  have c: "1 \<le> ch (set_slot atoi l)" "ch (set_slot atoi l) \<le> 16"
    by (auto simp: set_slot_def word_le_def uint_word_of_int clamp_int_def Let_def)
  show ?thesis unfolding storable_def using lab ty c
    by (simp add: set_slot_def set_label_props(1))
qed

lemma dump_out:
  "serial_out (dumpConfig s) =
     serial_out s @ map (\<lambda>(b, sw). dump_line b sw (cfg s b sw)) slot_indices @ [''OK,DUMP_DONE'']"
  by (simp add: dumpConfig_def)

lemma dumped_lines_eq:
  "dumped_lines atoi s = map (\<lambda>(b, sw). dump_line b sw (cfg s b sw)) slot_indices @ [''OK,DUMP_DONE'']"
  by (simp add: dumped_lines_def process_simple dump_out)

lemma after_sets_storable:
  assumes "\<forall>l \<in> set lines. take 4 l = ''SET,'' \<and> set_args_present l \<and> set_index_ok atoi l
             \<and> CHR 0xFF \<notin> set (take 4 (set_arg l 2)) \<and> CHR 0x00 \<notin> set l"
      and "\<forall>b<4. \<forall>sw<6. \<exists>l \<in> set lines. set_target atoi l = (b, sw)"
      and "b < 4" "sw < 6"
  shows "storable (cfg (after_sets atoi lines s0) b sw)"
proof -
  have nul: "CHR 0x00 \<notin> set (take 4 (set_arg l 2))" if l: "l \<in> set lines" for l
  proof -
    from assms(1) l have p: "set_args_present l" and n: "CHR 0x00 \<notin> set l" by auto
    from p have "set (fields (drop 4 l) ! 2) \<subseteq> set (drop 4 l)"
      by (intro set_fields_subset) (simp add: set_args_present_def)
    then have "set (set_arg l 2) \<subseteq> set l"
      using set_trim_spaces [of "fields (drop 4 l) ! 2"] set_drop_subset [of 4 l]
      by (auto simp: set_arg_def)
    with n show ?thesis using set_take_subset [of 4 "set_arg l 2"] by auto
  qed
  have "\<forall>l \<in> set lines. take 4 l = ''SET,'' \<and> set_args_present l \<and> set_index_ok atoi l
             \<and> storable (set_slot atoi l)"
    using assms(1) nul by (auto intro: set_slot_storable)
  from fold_set_invariant [of lines atoi storable s0, OF this]
  have inv: "\<forall>l \<in> set lines. storable (cfg (after_sets atoi lines s0)
        (fst (set_target atoi l)) (snd (set_target atoi l)))"
    by (simp add: after_sets_def)
  from assms(2,3,4) obtain l where "l \<in> set lines" "set_target atoi l = (b, sw)" by blast
  with inv show ?thesis by force
qed

lemma after_reload_cfg:
  assumes "b < 4" "sw < 6" "storable (cfg s1 b sw)"
  shows "cfg (after_reload atoi t pins s1) b sw = cfg s1 b sw"
proof -
  let ?e = "eeprom (processSerialLine atoi ''SAVE'' s1)"
  let ?s3 = "setup_sketch t pins ?e"
  have e: "?e = eeprom (saveAllToEEPROM s1)" by (simp add: process_simple)
  have m: "EEPROM_get32 EEPROM_MAGIC_ADDR ?e = EEPROM_MAGIC" using save_marker [of s1] by (simp add: e)
  have m3: "EEPROM_get32 EEPROM_MAGIC_ADDR (eeprom ?s3) = EEPROM_MAGIC"
    using m by (simp add: setup_fields)
  have "cfg (after_reload atoi t pins s1) b sw = eepromReadSlot b sw (eeprom ?s3)"
    unfolding after_reload_def using assms(1,2)
    by (simp add: process_simple(3) [OF m3] load_cfg [OF m3])
  also have "\<dots> = cfg s1 b sw"
    using assms by (simp add: setup_fields e save_read)
  finally show ?thesis .
qed

text \<open>
  Claim C2, as the code has it. Let every line be an accepted \<open>SET\<close> command (a C
  string, so without NUL) whose label has no byte 0xFF among its first four characters,
  and let the lines address all 24 slots. After \<open>SAVE\<close>, a power cycle on the saved
  EEPROM and \<open>LOAD\<close>, every slot of the grid is what the \<open>SET\<close> commands had made
  it, and \<open>DUMP\<close> prints the same 24 lines (and the completion marker) as it would
  have printed right after the \<open>SET\<close> commands.
\<close>

theorem C2_round_trip:
  assumes "\<forall>l \<in> set lines. take 4 l = ''SET,'' \<and> set_args_present l \<and> set_index_ok atoi l
             \<and> CHR 0xFF \<notin> set (take 4 (set_arg l 2)) \<and> CHR 0x00 \<notin> set l"
      and "\<forall>b<4. \<forall>sw<6. \<exists>l \<in> set lines. set_target atoi l = (b, sw)"
  shows "(\<forall>b<4. \<forall>sw<6. cfg (after_reload atoi t pins (after_sets atoi lines s0)) b sw
                          = cfg (after_sets atoi lines s0) b sw)
       \<and> dumped_lines atoi (after_reload atoi t pins (after_sets atoi lines s0))
           = map (\<lambda>(b, sw). dump_line b sw (cfg (after_sets atoi lines s0) b sw)) slot_indices
               @ [''OK,DUMP_DONE'']
       \<and> dumped_lines atoi (after_reload atoi t pins (after_sets atoi lines s0))
           = dumped_lines atoi (after_sets atoi lines s0)"
proof -
  let ?s1 = "after_sets atoi lines s0"
  have c: "cfg (after_reload atoi t pins ?s1) b sw = cfg ?s1 b sw" if "b < 4" "sw < 6" for b sw
    using that after_sets_storable [OF assms that] by (simp add: after_reload_cfg)
  have d: "map (\<lambda>(b, sw). dump_line b sw (cfg (after_reload atoi t pins ?s1) b sw)) slot_indices
         = map (\<lambda>(b, sw). dump_line b sw (cfg ?s1 b sw)) slot_indices"
    by (rule map_cong) (auto simp: set_slot_indices c)
  show ?thesis using c by (simp add: dumped_lines_eq d)
qed

lemma print_dec_small:
  "print_dec (Suc 0) = ''1''" "print_dec 2 = ''2''" "print_dec 3 = ''3''"
  "print_dec 4 = ''4''" "print_dec 5 = ''5''" "print_dec 6 = ''6''"
  by code_simp+

lemma print_dec_two: "print_dec (Suc (Suc 0)) = ''2''"
  using print_dec_small(2) by (simp add: numeral_2_eq_2)

lemma less_4: "b < 4 \<longleftrightarrow> b = 0 \<or> b = Suc 0 \<or> b = 2 \<or> b = (3::nat)"
  by arith

lemma set_line_for_fields:
  assumes "b < 4" "sw < 6" "CHR '','' \<notin> set lab"
  shows "fields (drop 4 (set_line_for lab b sw))
       = [print_dec (b + 1), print_dec (sw + 1), lab, ''1'', ''1'', ''7'', ''100'', ''0'']"
proof -
  have f: "fields (x @ CHR '','' # r) = x # fields r" if "CHR '','' \<notin> set x" for x r
    using that by (induction x) auto
  have fl: "fields (lab @ '',1,1,7,100,0'') = [lab, ''1'', ''1'', ''7'', ''100'', ''0'']"
    using f [OF assms(3), of "''1,1,7,100,0''"] by simp
  have pb: "CHR '','' \<notin> set (print_dec (b + 1))"
    using assms(1) by (auto simp: less_4 print_dec_small print_dec_two)
  have ps: "CHR '','' \<notin> set (print_dec (sw + 1))"
    using assms(2) by (auto simp: less_6 print_dec_small print_dec_two)
  have "drop 4 (set_line_for lab b sw)
      = print_dec (b + 1) @ CHR '','' # (print_dec (sw + 1) @ CHR '','' # (lab @ '',1,1,7,100,0''))"
    by (simp add: set_line_for_def)
  then show ?thesis by (simp only: f [OF pb] f [OF ps] fl)
qed

lemma atoi_print_dec:
  "b < 4 \<Longrightarrow> atoi_ref (trim_spaces (print_dec (b + 1))) = int b + 1"
  "sw < 6 \<Longrightarrow> atoi_ref (trim_spaces (print_dec (sw + 1))) = int sw + 1"
  by (auto simp: less_4 less_6 print_dec_small print_dec_two trim_spaces_def atoi_ref_simps)

lemma set_line_for_facts:
  assumes "b < 4" "sw < 6" "CHR '','' \<notin> set lab" "trim_spaces lab = lab"
  shows "take 4 (set_line_for lab b sw) = ''SET,''"
    "set_args_present (set_line_for lab b sw)"
    "set_index_ok atoi_ref (set_line_for lab b sw)"
    "set_target atoi_ref (set_line_for lab b sw) = (b, sw)"
    "set_arg (set_line_for lab b sw) 2 = lab"
proof -
  note f = set_line_for_fields [OF assms(1,2,3)]
  show "take 4 (set_line_for lab b sw) = ''SET,''" by (simp add: set_line_for_def)
  show "set_args_present (set_line_for lab b sw)" by (simp add: set_args_present_def f)
  have a: "atoi_ref (set_arg (set_line_for lab b sw) 0) = int b + 1"
     "atoi_ref (set_arg (set_line_for lab b sw) (Suc 0)) = int sw + 1"
    using atoi_print_dec assms(1,2) by (simp_all add: set_arg_def f)
  show "set_index_ok atoi_ref (set_line_for lab b sw)"
    using assms(1,2) by (simp add: set_index_ok_def a)
  show "set_target atoi_ref (set_line_for lab b sw) = (b, sw)"
    by (simp add: set_target_def a)
  show "set_arg (set_line_for lab b sw) 2 = lab"
    by (simp add: set_arg_def f assms(4))
qed

lemma set_all_lines_cover:
  "b < 4 \<Longrightarrow> sw < 6 \<Longrightarrow> set_line_for lab b sw \<in> set (set_all_lines lab)"
  by (force simp: set_all_lines_def set_slot_indices)

lemma set_all_lines_elem:
  "l \<in> set (set_all_lines lab) \<Longrightarrow> \<exists>b sw. b < 4 \<and> sw < 6 \<and> l = set_line_for lab b sw"
  by (auto simp: set_all_lines_def set_slot_indices)

lemma write_slot_cells:
  "a \<in> slot_cells b sw \<Longrightarrow> eepromWriteSlot b sw sl e a = eepromWriteSlot b sw sl e' a"
proof -
  assume "a \<in> slot_cells b sw"
  then have "a \<in> {slotAddr b sw + 0, slotAddr b sw + 1, slotAddr b sw + 2, slotAddr b sw + 3,
     slotAddr b sw + 4, slotAddr b sw + 5, slotAddr b sw + 6, slotAddr b sw + 7, slotAddr b sw + 8}"
    unfolding slot_cells_def by auto
  then show ?thesis unfolding eepromWriteSlot_def Let_def by auto
qed

lemma fold_write_cell:
  assumes "distinct ps" "(b, sw) \<in> set ps" "\<forall>(b', sw') \<in> set ps. sw' < 6" "a \<in> slot_cells b sw"
  shows "fold (\<lambda>(b, sw) e. eepromWriteSlot b sw (c b sw) e) ps e a
       = eepromWriteSlot b sw (c b sw) e0 a"
  using assms(1,2,3)
proof (induction ps arbitrary: e)
  case Nil
  then show ?case by simp
next
  case (Cons p ps)
  show ?case
  proof (cases "(b, sw) = p")
    case True
    have "fold (\<lambda>(b, sw) e. eepromWriteSlot b sw (c b sw) e) ps (eepromWriteSlot b sw (c b sw) e) a
          = eepromWriteSlot b sw (c b sw) e a"
    proof (rule fold_write_other)
      fix b2 sw2 assume m: "(b2, sw2) \<in> set ps"
      with Cons.prems True have ne: "(b, sw) \<noteq> (b2, sw2)" by auto
      from Cons.prems m True have "sw < 6" "sw2 < 6" by auto
      from slot_cells_disjoint [OF this ne] assms(4) show "a \<notin> slot_cells b2 sw2" by auto
    qed
    with True [symmetric] show ?thesis
      using write_slot_cells [OF assms(4), of "c b sw" e e0] by simp
  next
    case False
    with Cons show ?thesis by (cases p) auto
  qed
qed

lemma save_read_any:
  assumes "b < 4" "sw < 6"
  shows "eepromReadSlot b sw (eeprom (saveAllToEEPROM s))
       = eepromReadSlot b sw (eepromWriteSlot b sw (cfg s b sw) e0)"
  unfolding saveAllToEEPROM_def using assms
  by (intro read_slot_cong)
     (simp add: fold_write_cell [where ?e0.0 = e0] distinct_slot_indices set_slot_indices)

lemma after_reload_cfg_any:
  assumes "b < 4" "sw < 6"
  shows "cfg (after_reload atoi t pins s1) b sw
       = eepromReadSlot b sw (eepromWriteSlot b sw (cfg s1 b sw) e0)"
proof -
  let ?e = "eeprom (processSerialLine atoi ''SAVE'' s1)"
  let ?s3 = "setup_sketch t pins ?e"
  have e: "?e = eeprom (saveAllToEEPROM s1)" by (simp add: process_simple)
  have m: "EEPROM_get32 EEPROM_MAGIC_ADDR ?e = EEPROM_MAGIC" using save_marker [of s1] by (simp add: e)
  have m3: "EEPROM_get32 EEPROM_MAGIC_ADDR (eeprom ?s3) = EEPROM_MAGIC"
    using m by (simp add: setup_fields)
  have "cfg (after_reload atoi t pins s1) b sw = eepromReadSlot b sw (eeprom ?s3)"
    unfolding after_reload_def using assms(1,2)
    by (simp add: process_simple(3) [OF m3] load_cfg [OF m3])
  also have "\<dots> = eepromReadSlot b sw (eepromWriteSlot b sw (cfg s1 b sw) e0)"
    using assms by (simp add: setup_fields e save_read_any [where ?e0.0 = e0])
  finally show ?thesis .
qed

lemma set_line_for_slot:
  assumes "b < 4" "sw < 6" "CHR '','' \<notin> set lab" "trim_spaces lab = lab"
  shows "set_slot atoi_ref (set_line_for lab b sw)
       = \<lparr> label = set_label lab, type = 1, ch = 1, num = 7, vPress = 100, vRelease = 0 \<rparr>"
proof -
  note f = set_line_for_fields [OF assms(1,2,3)]
  have a: "set_arg (set_line_for lab b sw) 2 = lab" "set_arg (set_line_for lab b sw) 3 = ''1''"
    "set_arg (set_line_for lab b sw) 4 = ''1''" "set_arg (set_line_for lab b sw) 5 = ''7''"
    "set_arg (set_line_for lab b sw) 6 = ''100''" "set_arg (set_line_for lab b sw) 7 = ''0''"
  proof -
    show "set_arg (set_line_for lab b sw) 2 = lab" by (simp add: set_arg_def f assms(4))
  qed (simp_all add: set_arg_def f trim_spaces_def)
  show ?thesis by (simp add: set_slot_def a atoi_ref_simps clamp_int_def)
qed

lemma after_sets_all_same:
  assumes "CHR '','' \<notin> set lab" "trim_spaces lab = lab" "b < 4" "sw < 6"
  shows "cfg (after_sets atoi_ref (set_all_lines lab) s0) b sw
       = \<lparr> label = set_label lab, type = 1, ch = 1, num = 7, vPress = 100, vRelease = 0 \<rparr>"
proof -
  let ?X = "\<lparr> label = set_label lab, type = 1, ch = 1, num = 7, vPress = 100, vRelease = 0 \<rparr>"
  have "\<forall>l \<in> set (set_all_lines lab). take 4 l = ''SET,'' \<and> set_args_present l
          \<and> set_index_ok atoi_ref l \<and> set_slot atoi_ref l = ?X"
    using set_line_for_facts [OF _ _ assms(1,2)] set_line_for_slot [OF _ _ assms(1,2)]
    by (auto dest!: set_all_lines_elem)
  from fold_set_invariant [of "set_all_lines lab" atoi_ref "\<lambda>sl. sl = ?X" s0, OF this]
  have "\<forall>l \<in> set (set_all_lines lab).
     cfg (after_sets atoi_ref (set_all_lines lab) s0)
       (fst (set_target atoi_ref l)) (snd (set_target atoi_ref l)) = ?X"
    by (simp add: after_sets_def)
  from bspec [OF this set_all_lines_cover [OF assms(3,4)]]
  show ?thesis by (simp add: set_line_for_facts(4) [OF assms(3,4,1,2)])
qed

lemma block_label_ok: "CHR '','' \<notin> set block_label" "trim_spaces block_label = block_label"
  "set_label block_label = block_label"
  by (simp_all add: block_label_def trim_spaces_def set_label_4)

lemma print_dec_more: "print_dec 1 = ''1''" "print_dec 7 = ''7''" "print_dec 100 = ''100''"
  "print_dec 0 = ''0''"
  by code_simp+

lemma hd_dumped:
  "hd (dumped_lines atoi s) = dump_line 0 0 (cfg s 0 0)"
  by (simp add: dumped_lines_eq slot_indices_def upt_0_4 upt_0_6)

text \<open>
  Claim C2 as stated covers every accepted \<open>SET\<close>. A label of four bytes 0xFF is
  accepted and stored, but \<open>eepromReadSlot\<close> takes 0xFF for an erased cell: after the
  round trip the label is four spaces and the first \<open>DUMP\<close> line differs.
\<close>

theorem C2_block_label_lost:
  "label (cfg (after_sets atoi_ref (set_all_lines block_label) (boot erased_image)) 0 0) = block_label
 \<and> label (cfg (after_reload atoi_ref 0 no_switch
      (after_sets atoi_ref (set_all_lines block_label) (boot erased_image))) 0 0) = ''    ''
 \<and> hd (dumped_lines atoi_ref (after_sets atoi_ref (set_all_lines block_label) (boot erased_image)))
     = ''SET,1,1,'' @ block_label @ '',1,1,7,100,0''
 \<and> hd (dumped_lines atoi_ref (after_reload atoi_ref 0 no_switch
      (after_sets atoi_ref (set_all_lines block_label) (boot erased_image))))
     = ''SET,1,1,    ,1,1,7,100,0''"
proof -
  let ?s1 = "after_sets atoi_ref (set_all_lines block_label) (boot erased_image)"
  let ?X = "\<lparr> label = block_label, type = 1, ch = 1, num = 7, vPress = 100, vRelease = 0 \<rparr>"
  have c1: "cfg ?s1 0 0 = ?X"
    using after_sets_all_same [OF block_label_ok(1,2), of 0 0] by (simp add: block_label_ok)
  have c4: "cfg (after_reload atoi_ref 0 no_switch ?s1) 0 0
      = \<lparr> label = ''    '', type = 1, ch = 1, num = 7, vPress = 100, vRelease = 0 \<rparr>"
  proof -
    have r: "eepromReadSlot 0 0 (eepromWriteSlot 0 0 ?X (\<lambda>a. 0))
        = \<lparr> label = ''    '', type = 1, ch = 1, num = 7, vPress = 100, vRelease = 0 \<rparr>"
      by (simp add: eepromReadSlot_def eepromWriteSlot_def Let_def block_label_def
            sanitize_label_char_def)
    show ?thesis
      by (simp add: after_reload_cfg_any [where ?e0.0 = "\<lambda>a. 0"] c1 r)
  qed
  have d1: "dump_line 0 0 ?X = ''SET,1,1,'' @ block_label @ '',1,1,7,100,0''"
    by (simp add: dump_line_def print_dec_more print_dec_small cstr_def block_label_def)
  have d4: "dump_line 0 0 \<lparr> label = ''    '', type = 1, ch = 1, num = 7, vPress = 100, vRelease = 0 \<rparr>
      = ''SET,1,1,    ,1,1,7,100,0''"
    by (simp add: dump_line_def print_dec_more print_dec_small cstr_def)
  show ?thesis by (simp add: hd_dumped c1 c4 d1 d4)
qed

lemma vol_ok: "CHR '','' \<notin> set ''VOL_''" "trim_spaces ''VOL_'' = ''VOL_''"
  by (simp_all add: trim_spaces_def)

lemma vol_lines_no_nul:
  assumes "b < 4" "sw < 6"
  shows "CHR 0x00 \<notin> set (set_line_for ''VOL_'' b sw)"
proof -
  have "CHR 0x00 \<notin> set (print_dec (b + 1))"
    using assms(1) by (auto simp: less_4 print_dec_small print_dec_two)
  moreover have "CHR 0x00 \<notin> set (print_dec (sw + 1))"
    using assms(2) by (auto simp: less_6 print_dec_small print_dec_two)
  ultimately show ?thesis by (simp add: set_line_for_def)
qed

theorem C2_round_trip_witness:
  "list_all (\<lambda>l. take 4 l = ''SET,'' \<and> set_args_present l \<and> set_index_ok atoi_ref l
        \<and> CHR 0xFF \<notin> set (take 4 (set_arg l 2)) \<and> CHR 0x00 \<notin> set l) (set_all_lines ''VOL_'')
 \<and> list_all (\<lambda>(b, sw). list_ex (\<lambda>l. set_target atoi_ref l = (b, sw)) (set_all_lines ''VOL_''))
       slot_indices
 \<and> list_all (\<lambda>(b, sw).
       cfg (after_reload atoi_ref 0 no_switch
             (after_sets atoi_ref (set_all_lines ''VOL_'') (boot erased_image))) b sw
     = cfg (after_sets atoi_ref (set_all_lines ''VOL_'') (boot erased_image)) b sw) slot_indices
 \<and> dumped_lines atoi_ref (after_reload atoi_ref 0 no_switch
        (after_sets atoi_ref (set_all_lines ''VOL_'') (boot erased_image)))
     = dumped_lines atoi_ref (after_sets atoi_ref (set_all_lines ''VOL_'') (boot erased_image))"
proof -
  have h1: "\<forall>l \<in> set (set_all_lines ''VOL_''). take 4 l = ''SET,'' \<and> set_args_present l
        \<and> set_index_ok atoi_ref l \<and> CHR 0xFF \<notin> set (take 4 (set_arg l 2)) \<and> CHR 0x00 \<notin> set l"
  proof
    fix l assume "l \<in> set (set_all_lines ''VOL_'')"
    then obtain b sw where l: "b < 4" "sw < 6" "l = set_line_for ''VOL_'' b sw"
      using set_all_lines_elem by blast
    from set_line_for_facts [OF l(1,2) vol_ok] vol_lines_no_nul [OF l(1,2)]
    show "take 4 l = ''SET,'' \<and> set_args_present l
        \<and> set_index_ok atoi_ref l \<and> CHR 0xFF \<notin> set (take 4 (set_arg l 2)) \<and> CHR 0x00 \<notin> set l"
      by (simp add: l(3))
  qed
  have h2: "\<forall>b<4. \<forall>sw<6. \<exists>l \<in> set (set_all_lines ''VOL_''). set_target atoi_ref l = (b, sw)"
    using set_all_lines_cover [of _ _ "''VOL_''"] set_line_for_facts(4) [OF _ _ vol_ok]
    by blast
  from C2_round_trip [OF h1 h2, of 0 no_switch "boot erased_image"] h1 h2
  show ?thesis
    unfolding list_all_iff list_ex_iff set_slot_indices by blast
qed

subsection \<open>One pass of the poll loop, switch by switch\<close>

lemma bank_frame [simp]:
  "cfg (doBankUp s) = cfg s" "eeprom (doBankUp s) = eeprom s"
  "serial_out (doBankUp s) = serial_out s" "lineBuf (doBankUp s) = lineBuf s"
  "chord45Latched (doBankUp s) = chord45Latched s" "chord56Latched (doBankUp s) = chord56Latched s"
  "pendingPress (doBankUp s) = pendingPress s" "pendingAt (doBankUp s) = pendingAt s"
  "sentPress (doBankUp s) = sentPress s" "rawState (doBankUp s) = rawState s"
  "stableState (doBankUp s) = stableState s" "lastRaw (doBankUp s) = lastRaw s"
  "lastChangeMs (doBankUp s) = lastChangeMs s" "events (doBankUp s) = events s"
  "cfg (doBankDown s) = cfg s" "eeprom (doBankDown s) = eeprom s"
  "serial_out (doBankDown s) = serial_out s" "lineBuf (doBankDown s) = lineBuf s"
  "chord45Latched (doBankDown s) = chord45Latched s" "chord56Latched (doBankDown s) = chord56Latched s"
  "pendingPress (doBankDown s) = pendingPress s" "pendingAt (doBankDown s) = pendingAt s"
  "sentPress (doBankDown s) = sentPress s" "rawState (doBankDown s) = rawState s"
  "stableState (doBankDown s) = stableState s" "lastRaw (doBankDown s) = lastRaw s"
  "lastChangeMs (doBankDown s) = lastChangeMs s" "events (doBankDown s) = events s"
  by (simp_all add: doBankUp_def doBankDown_def Let_def)

lemma sw_handle [simp]: "sw_of (handleSwitchEvent i b s) = sw_of s"
  by (rule ext) (simp add: sw_of_def)

lemma sw_bank [simp]: "sw_of (doBankUp s) = sw_of s" "sw_of (doBankDown s) = sw_of s"
  by (rule ext, simp add: sw_of_def)+

lemma debounce_switch_sw:
  "sw_of (debounce_switch t r i s) j = (if j = i then deb_rt t r i (sw_of s i) else sw_of s j)"
  by (simp add: debounce_switch_def deb_rt_def settles_def Let_def sw_of_def is_chord_switch_def)

lemma debounce_switch_events:
  "events (debounce_switch t r i s) = events s @ deb_ev t r i (sw_of s i)"
  by (simp add: debounce_switch_def deb_ev_def settles_def Let_def sw_of_def is_chord_switch_def)

lemma debounce_switch_frame [simp]:
  "chord45Latched (debounce_switch t r i s) = chord45Latched s"
  "chord56Latched (debounce_switch t r i s) = chord56Latched s"
  "cfg (debounce_switch t r i s) = cfg s"
  "eeprom (debounce_switch t r i s) = eeprom s"
  "serial_out (debounce_switch t r i s) = serial_out s"
  "lineBuf (debounce_switch t r i s) = lineBuf s"
  by (simp_all add: debounce_switch_def Let_def)

lemma fold_debounce_sw:
  "distinct is \<Longrightarrow>
   sw_of (fold (\<lambda>i. debounce_switch t (c i) i) is s) j =
     (if j \<in> set is then deb_rt t (c j) j (sw_of s j) else sw_of s j)"
proof (induction "is" arbitrary: s)
  case Nil
  then show ?case by simp
next
  case (Cons i "is")
  then show ?case by (auto simp: debounce_switch_sw)
qed

lemma fold_debounce_events:
  "distinct is \<Longrightarrow>
   events (fold (\<lambda>i. debounce_switch t (c i) i) is s) =
     events s @ concat (map (\<lambda>i. deb_ev t (c i) i (sw_of s i)) is)"
proof (induction "is" arbitrary: s)
  case Nil
  then show ?case by simp
next
  case (Cons i "is")
  then have "\<forall>j \<in> set is. sw_of (debounce_switch t (c i) i s) j = sw_of s j"
    by (auto simp: debounce_switch_sw)
  then have m: "map (\<lambda>j. deb_ev t (c j) j (sw_of (debounce_switch t (c i) i s) j)) is
           = map (\<lambda>j. deb_ev t (c j) j (sw_of s j)) is"
    by (intro map_cong) auto
  from Cons.prems have "distinct is" by simp
  from Cons.IH [OF this, of "debounce_switch t (c i) i s"]
  show ?case by (simp add: debounce_switch_events m)
qed

lemma fold_debounce_frame:
  "chord45Latched (fold (\<lambda>i. debounce_switch t (c i) i) is s) = chord45Latched s"
  "chord56Latched (fold (\<lambda>i. debounce_switch t (c i) i) is s) = chord56Latched s"
  by (induction "is" arbitrary: s) simp_all

lemma debounce_phase_sw: "sw_of (debounce_phase p s) j = after_debounce p s j"
  unfolding debounce_phase_def after_debounce_def
  by (simp add: fold_debounce_sw)

lemma debounce_phase_events:
  "events (debounce_phase p s) =
     events s @ concat (map (\<lambda>j. deb_ev (now p) (closed p j) j (sw_of s j)) [0..<6])"
  unfolding debounce_phase_def by (simp add: fold_debounce_events)

lemma debounce_phase_frame [simp]:
  "chord45Latched (debounce_phase p s) = chord45Latched s"
  "chord56Latched (debounce_phase p s) = chord56Latched s"
  unfolding debounce_phase_def by (simp_all add: fold_debounce_frame)

lemma stable_sw_of [simp]: "stable (sw_of s i) = stableState s i"
  by (simp add: sw_of_def)

lemma chord_after_debounce:
  "chord45 (debounce_phase p s) = joint45 p s" "chord56 (debounce_phase p s) = joint56 p s"
  by (simp_all add: chord45_def chord56_def joint45_def joint56_def
        stable_sw_of [symmetric] debounce_phase_sw del: stable_sw_of)

lemma clear_pending_sw:
  "sw_of (clear_pending s) j =
     (if is_chord_switch j then (sw_of s j)\<lparr>pending := False, sent := False\<rparr> else sw_of s j)"
  by (auto simp: clear_pending_def sw_of_def is_chord_switch_def)

lemma sw_of_cong_fields:
  "stableState s' = stableState s \<Longrightarrow> lastRaw s' = lastRaw s \<Longrightarrow>
   lastChangeMs s' = lastChangeMs s \<Longrightarrow> pendingPress s' = pendingPress s \<Longrightarrow>
   pendingAt s' = pendingAt s \<Longrightarrow> sentPress s' = sentPress s \<Longrightarrow> sw_of s' = sw_of s"
  by (rule ext) (simp add: sw_of_def)

lemma sw_of_updates [simp]:
  "sw_of (s\<lparr>chord45Latched := x\<rparr>) = sw_of s"
  "sw_of (s\<lparr>chord56Latched := x\<rparr>) = sw_of s"
  "sw_of (s\<lparr>events := e\<rparr>) = sw_of s"
  "sw_of (s\<lparr>lineBuf := l\<rparr>) = sw_of s"
  by (rule ext, simp add: sw_of_def)+

lemma clear_pending_frame [simp]:
  "events (clear_pending s) = events s"
  "chord45Latched (clear_pending s) = chord45Latched s"
  "chord56Latched (clear_pending s) = chord56Latched s"
  "stableState (clear_pending s) = stableState s"
  by (simp_all add: clear_pending_def)

lemma chord_phase_latches:
  "chord45Latched (chord_phase s) = chord45 s" "chord56Latched (chord_phase s) = chord56 s"
  by (simp_all add: chord_phase_def Let_def)

lemma chord_phase_events:
  "events (chord_phase s) = events s
     @ (if chord45 s \<and> \<not> chord45Latched s then [ChordBankDown] else [])
     @ (if chord56 s \<and> \<not> chord56Latched s then [ChordBankUp] else [])"
  by (simp add: chord_phase_def Let_def)

lemma chord_phase_sw:
  "sw_of (chord_phase s) j =
     (if ((chord45 s \<and> \<not> chord45Latched s) \<or> (chord56 s \<and> \<not> chord56Latched s))
          \<and> is_chord_switch j
      then (sw_of s j)\<lparr>pending := False, sent := False\<rparr> else sw_of s j)"
  by (simp add: chord_phase_def Let_def clear_pending_sw)

lemma commit_pending_sw:
  "sw_of (commit_pending t i s) j = (if j = i then commit_rt t (sw_of s i) else sw_of s j)"
  by (simp add: commit_pending_def commit_rt_def commits_def Let_def sw_of_def)

lemma commit_pending_events:
  "events (commit_pending t i s) = events s @ commit_ev t i (sw_of s i)"
  by (simp add: commit_pending_def commit_ev_def commits_def Let_def sw_of_def)

lemma commit_pending_frame [simp]:
  "chord45Latched (commit_pending t i s) = chord45Latched s"
  "chord56Latched (commit_pending t i s) = chord56Latched s"
  by (simp_all add: commit_pending_def Let_def)

lemma commit_all_sw:
  "sw_of (fold (commit_pending t) [3, 4, 5] s) j =
     (if is_chord_switch j then commit_rt t (sw_of s j) else sw_of s j)"
proof -
  have "is_chord_switch j \<longleftrightarrow> j = 3 \<or> j = 4 \<or> j = 5"
    unfolding is_chord_switch_def by arith
  then show ?thesis by (auto simp: commit_pending_sw)
qed

lemma commit_all_events:
  "events (fold (commit_pending t) [3, 4, 5] s) =
     events s @ concat (map (\<lambda>j. commit_ev t j (sw_of s j)) [3, 4, 5])"
  by (simp add: commit_pending_events commit_pending_sw)

lemma commit_all_frame [simp]:
  "chord45Latched (fold (commit_pending t) [3, 4, 5] s) = chord45Latched s"
  "chord56Latched (fold (commit_pending t) [3, 4, 5] s) = chord56Latched s"
  by simp_all

lemma sw_of_println [simp]: "sw_of (println l s) = sw_of s"
  by (rule ext) (simp add: sw_of_def)

lemma sw_of_save [simp]: "sw_of (saveAllToEEPROM s) = sw_of s"
  by (rule ext) (simp add: sw_of_def)

lemma sw_of_load [simp]: "sw_of (snd (loadAllFromEEPROM s)) = sw_of s"
  by (rule ext) (simp add: sw_of_def)

lemma dump_frame [simp]:
  "sw_of (dumpConfig s) = sw_of s" "events (dumpConfig s) = events s"
  "chord45Latched (dumpConfig s) = chord45Latched s"
  "chord56Latched (dumpConfig s) = chord56Latched s"
  by (simp_all add: dumpConfig_def sw_of_def fun_eq_iff)

lemma applySetLine_frame [simp]:
  "sw_of (applySetLine atoi l s) = sw_of s" "events (applySetLine atoi l s) = events s"
  "chord45Latched (applySetLine atoi l s) = chord45Latched s"
  "chord56Latched (applySetLine atoi l s) = chord56Latched s"
proof -
  consider "\<not> set_args_present l" | "set_args_present l" "\<not> set_index_ok atoi l"
    | "set_args_present l" "set_index_ok atoi l" by blast
  then have "sw_of (applySetLine atoi l s) = sw_of s \<and> events (applySetLine atoi l s) = events s
    \<and> chord45Latched (applySetLine atoi l s) = chord45Latched s
    \<and> chord56Latched (applySetLine atoi l s) = chord56Latched s"
  proof cases
    case 1
    then show ?thesis by (simp add: applySetLine_format)
  next
    case 2
    then show ?thesis by (simp add: applySetLine_index)
  next
    case 3
    then show ?thesis by (simp add: applySetLine_ok sw_of_def fun_eq_iff)
  qed
  then show "sw_of (applySetLine atoi l s) = sw_of s" "events (applySetLine atoi l s) = events s"
  "chord45Latched (applySetLine atoi l s) = chord45Latched s"
  "chord56Latched (applySetLine atoi l s) = chord56Latched s" by simp_all
qed

lemma process_frame [simp]:
  "sw_of (processSerialLine atoi l s) = sw_of s"
  "events (processSerialLine atoi l s) = events s"
  "chord45Latched (processSerialLine atoi l s) = chord45Latched s"
  "chord56Latched (processSerialLine atoi l s) = chord56Latched s"
  by (simp_all add: processSerialLine_def split: prod.splits bool.splits)
     (metis sw_of_load load_frame snd_conv)+

lemma serial_char_frame [simp]:
  "sw_of (serial_char atoi c s) = sw_of s"
  "events (serial_char atoi c s) = events s"
  "chord45Latched (serial_char atoi c s) = chord45Latched s"
  "chord56Latched (serial_char atoi c s) = chord56Latched s"
  by (simp_all add: serial_char_def Let_def)

lemma serial_fold_frame [simp]:
  "sw_of (fold (serial_char atoi) cs s) = sw_of s"
  "events (fold (serial_char atoi) cs s) = events s"
  "chord45Latched (fold (serial_char atoi) cs s) = chord45Latched s"
  "chord56Latched (fold (serial_char atoi) cs s) = chord56Latched s"
  by (induction cs arbitrary: s) simp_all

lemma pass_cong:
  assumes "sw_of s' = sw_of s" "chord45Latched s' = chord45Latched s"
    "chord56Latched s' = chord56Latched s"
  shows "after_debounce p s' = after_debounce p s" "joint45 p s' = joint45 p s"
    "joint56 p s' = joint56 p s" "chord_fires p s' = chord_fires p s"
    "after_chord p s' = after_chord p s" "after_pass p s' = after_pass p s"
    "pass_events p s' = pass_events p s"
proof -
  show 1: "after_debounce p s' = after_debounce p s"
    by (rule ext) (simp add: after_debounce_def assms)
  show 2: "joint45 p s' = joint45 p s" "joint56 p s' = joint56 p s"
    by (simp_all add: joint45_def joint56_def 1)
  show 3: "chord_fires p s' = chord_fires p s" by (simp add: chord_fires_def 2 assms)
  show 4: "after_chord p s' = after_chord p s"
    by (rule ext) (simp add: after_chord_def 1 3)
  show "after_pass p s' = after_pass p s"
    by (rule ext) (simp add: after_pass_def 2 4)
  show "pass_events p s' = pass_events p s"
    by (simp add: pass_events_def 2 4 assms)
qed

lemmas commit_nested_sw = commit_all_sw [simplified]

lemmas commit_nested_events = commit_all_events [simplified]

lemma loop_sw: "sw_of (loop atoi p s) j = after_pass p s j"
proof -
  let ?s1 = "fold (serial_char atoi) (rx p) s"
  have "sw_of (loop atoi p s) j = after_pass p ?s1 j"
    unfolding loop_def Let_def
    by (auto simp add: chord_after_debounce commit_nested_sw chord_phase_sw debounce_phase_sw
          after_pass_def after_chord_def chord_fires_def simp del: fold_simps)
  then show ?thesis by (simp add: pass_cong(6) [of ?s1 s])
qed

lemma loop_events: "events (loop atoi p s) = events s @ pass_events p s"
proof -
  let ?s1 = "fold (serial_char atoi) (rx p) s"
  have a: "(\<lambda>j. sw_of (chord_phase (debounce_phase p ?s1)) j) = after_chord p ?s1"
    by (rule ext)
       (auto simp add: chord_phase_sw chord_after_debounce debounce_phase_sw after_chord_def
          chord_fires_def)
  have "events (loop atoi p s) = events ?s1 @ pass_events p ?s1"
    unfolding loop_def Let_def pass_events_def
    by (simp add: chord_after_debounce commit_nested_events chord_phase_events
          debounce_phase_events a [unfolded fun_eq_iff, rule_format] del: fold_simps)
  then show ?thesis by (simp add: pass_cong(7) [of ?s1 s])
qed

lemma loop_latches:
  "chord45Latched (loop atoi p s) = joint45 p s" "chord56Latched (loop atoi p s) = joint56 p s"
proof -
  let ?s1 = "fold (serial_char atoi) (rx p) s"
  have "chord45Latched (loop atoi p s) = joint45 p ?s1 \<and> chord56Latched (loop atoi p s) = joint56 p ?s1"
    unfolding loop_def Let_def
    by (simp add: chord_after_debounce chord_phase_latches del: fold_simps)
  then show "chord45Latched (loop atoi p s) = joint45 p s"
    "chord56Latched (loop atoi p s) = joint56 p s"
    by (simp_all add: pass_cong(2,3) [of ?s1 s])
qed

lemma emitted_loop: "emitted s (loop atoi p s) = pass_events p s"
  by (simp add: emitted_def loop_events)

lemma joint_stable:
  "joint45 p s = (stableState (loop atoi p s) 3 \<and> stableState (loop atoi p s) 4)"
  "joint56 p s = (stableState (loop atoi p s) 4 \<and> stableState (loop atoi p s) 5)"
  by (simp_all add: stable_sw_of [symmetric] loop_sw after_pass_def after_chord_def
        commit_rt_def joint45_def joint56_def del: stable_sw_of)

subsection \<open>Events of a pass and of a run\<close>

lemma switch_events_append [simp]:
  "switch_events i (xs @ ys) = switch_events i xs @ switch_events i ys"
  "switch_events i [] = []"
  by (simp_all add: switch_events_def)

lemma switch_events_deb:
  "switch_events i (deb_ev t r j w) = (if j = i then deb_ev t r i w else [])"
  by (simp add: switch_events_def deb_ev_def)

lemma switch_events_commit:
  "switch_events i (commit_ev t j w) = (if j = i then commit_ev t i w else [])"
  by (simp add: switch_events_def commit_ev_def)

lemma switch_events_concat:
  assumes "\<And>j. switch_events i (f j) = (if j = i then f i else [])" "distinct js"
  shows "switch_events i (concat (map f js)) = (if i \<in> set js then f i else [])"
  using assms(2)
proof (induction js)
  case Nil
  then show ?case by simp
next
  case (Cons j js)
  then show ?case by (auto simp: assms(1))
qed

lemma switch_events_pass:
  "switch_events i (pass_events p s) =
     (if i < 6 then deb_ev (now p) (closed p i) i (sw_of s i) else [])
     @ (if \<not> (joint45 p s \<or> joint56 p s) \<and> is_chord_switch i
        then commit_ev (now p) i (after_chord p s i) else [])"
proof -
  have d: "switch_events i (concat (map (\<lambda>j. deb_ev (now p) (closed p j) j (sw_of s j)) [0..<6]))
         = (if i < 6 then deb_ev (now p) (closed p i) i (sw_of s i) else [])"
    by (subst switch_events_concat) (auto simp: switch_events_deb)
  have c: "switch_events i (concat (map (\<lambda>j. commit_ev (now p) j (after_chord p s j)) [3, 4, 5]))
         = (if is_chord_switch i then commit_ev (now p) i (after_chord p s i) else [])"
  proof -
    have "is_chord_switch i \<longleftrightarrow> i = 3 \<or> i = 4 \<or> i = 5"
      unfolding is_chord_switch_def by arith
    then show ?thesis
      by (auto simp: switch_events_commit)
  qed
  have e: "switch_events i [ChordBankDown] = []" "switch_events i [ChordBankUp] = []"
    by (simp_all add: switch_events_def)
  show ?thesis
    unfolding pass_events_def by (simp add: d c [simplified] e)
qed

lemma events_run_ex: "\<exists>evs. events (run atoi ps s) = events s @ evs"
proof (induction ps arbitrary: s)
  case Nil
  then show ?case by simp
next
  case (Cons p ps)
  obtain evs where "events (run atoi ps (loop atoi p s)) = events (loop atoi p s) @ evs"
    using Cons by blast
  then show ?case by (simp add: loop_events)
qed

lemma events_run: "events (run atoi ps s) = events s @ emitted s (run atoi ps s)"
proof -
  obtain evs where "events (run atoi ps s) = events s @ evs" using events_run_ex by blast
  then show ?thesis by (simp add: emitted_def)
qed

lemma emitted_run_Cons:
  "emitted s (run atoi (p # ps) s) =
     pass_events p s @ emitted (loop atoi p s) (run atoi ps (loop atoi p s))"
proof -
  obtain evs where e: "events (run atoi ps (loop atoi p s)) = events (loop atoi p s) @ evs"
    using events_run_ex by blast
  then have 1: "emitted (loop atoi p s) (run atoi ps (loop atoi p s)) = evs"
    by (simp add: emitted_def)
  from e have "events (run atoi (p # ps) s) = events s @ pass_events p s @ evs"
    by (simp add: loop_events)
  then have "emitted s (run atoi (p # ps) s) = pass_events p s @ evs"
    by (simp add: emitted_def)
  with 1 show ?thesis by simp
qed

lemma emitted_self [simp]: "emitted s s = []"
  by (simp add: emitted_def)

lemma run_append: "run atoi (ps @ qs) s = run atoi qs (run atoi ps s)"
  by (induction ps arbitrary: s) simp_all

lemma emitted_run_append:
  "emitted s (run atoi (ps @ qs) s) =
     emitted s (run atoi ps s) @ emitted (run atoi ps s) (run atoi qs (run atoi ps s))"
proof (induction ps arbitrary: s)
  case Nil
  then show ?case by simp
next
  case (Cons p ps)
  have a: "emitted s (run atoi xs (loop atoi p s))
      = pass_events p s @ emitted (loop atoi p s) (run atoi xs (loop atoi p s))" for xs
    using emitted_run_Cons [of s atoi p xs] by simp
  show ?case
    using Cons [of "loop atoi p s"] by (simp add: a)
qed

text \<open>The fields of the real state in terms of the per-switch record after a pass.\<close>

lemma sw_of_fields:
  "stableState s i = stable (sw_of s i)" "lastRaw s i = last_raw (sw_of s i)"
  "lastChangeMs s i = last_change (sw_of s i)" "pendingPress s i = pending (sw_of s i)"
  "pendingAt s i = pending_at (sw_of s i)" "sentPress s i = sent (sw_of s i)"
  by (simp_all add: sw_of_def)

lemma loop_fields:
  "stableState (loop atoi p s) i = stable (after_pass p s i)"
  "lastRaw (loop atoi p s) i = last_raw (after_pass p s i)"
  "lastChangeMs (loop atoi p s) i = last_change (after_pass p s i)"
  "pendingPress (loop atoi p s) i = pending (after_pass p s i)"
  "pendingAt (loop atoi p s) i = pending_at (after_pass p s i)"
  "sentPress (loop atoi p s) i = sent (after_pass p s i)"
  by (simp_all add: loop_sw [of atoi p s i, symmetric] sw_of_def)

lemma chord_switch_less: "is_chord_switch i \<Longrightarrow> i < 6"
  by (simp add: is_chord_switch_def)

lemma chord_event_iff:
  "ChordBankDown \<in> set (pass_events p s) \<longleftrightarrow> joint45 p s \<and> \<not> chord45Latched s"
  "ChordBankUp \<in> set (pass_events p s) \<longleftrightarrow> joint56 p s \<and> \<not> chord56Latched s"
proof -
  have d: "ChordBankDown \<notin> set (deb_ev t r j w)" "ChordBankUp \<notin> set (deb_ev t r j w)"
    for t r j w by (simp_all add: deb_ev_def)
  have c: "ChordBankDown \<notin> set (commit_ev t j w)" "ChordBankUp \<notin> set (commit_ev t j w)"
    for t j w by (simp_all add: commit_ev_def)
  show "ChordBankDown \<in> set (pass_events p s) \<longleftrightarrow> joint45 p s \<and> \<not> chord45Latched s"
    unfolding pass_events_def by (simp add: d c del: upt_Suc)
  show "ChordBankUp \<in> set (pass_events p s) \<longleftrightarrow> joint56 p s \<and> \<not> chord56Latched s"
    unfolding pass_events_def by (simp add: d c del: upt_Suc)
qed

lemma fired_clears:
  assumes "chord_fires p s" "is_chord_switch j"
  shows "\<not> pending (after_pass p s j)" "\<not> sent (after_pass p s j)"
  using assms by (auto simp: after_pass_def after_chord_def chord_fires_def)

lemma deb_unsettled:
  "\<not> settles t r w \<Longrightarrow>
   deb_rt t r i w = w\<lparr>last_raw := r, last_change := (if r \<noteq> last_raw w then t else last_change w)\<rparr>"
  "\<not> settles t r w \<Longrightarrow> deb_ev t r i w = []"
  by (simp_all add: deb_rt_def deb_ev_def Let_def)

lemma deb_settled:
  assumes "settles t r w"
  shows "stable (deb_rt t r i w) = r" "stable w = (\<not> r)" "last_raw w = r"
    "last_raw (deb_rt t r i w) = r" "last_change (deb_rt t r i w) = last_change w"
  using assms by (auto simp: deb_rt_def settles_def Let_def)

lemma deb_press:
  assumes "settles t True w" "is_chord_switch i"
  shows "pending (deb_rt t True i w)" "pending_at (deb_rt t True i w) = t"
    "sent (deb_rt t True i w) = sent w" "deb_ev t True i w = []"
  using assms by (simp_all add: deb_rt_def deb_ev_def Let_def)

lemma deb_release:
  assumes "settles t False w" "is_chord_switch i"
  shows "pending (deb_rt t False i w) = (sent w \<and> pending w)"
    "pending_at (deb_rt t False i w) = pending_at w"
    "\<not> sent (deb_rt t False i w)"
    "deb_ev t False i w = (if sent w then [SwitchEvent i False]
        else if pending w then [SwitchEvent i True, SwitchEvent i False] else [])"
  using assms by (simp_all add: deb_rt_def deb_ev_def Let_def)

lemma stable_after_pass: "stable (after_pass p s i) = stable (after_debounce p s i)"
  by (simp add: after_pass_def after_chord_def commit_rt_def)

lemma idle_step:
  assumes "is_chord_switch i" "\<not> pending (sw_of s i)" "\<not> sent (sw_of s i)"
    "stable (after_pass p s i) \<longrightarrow> stable (sw_of s i)"
  shows "\<not> pending (after_pass p s i)" "\<not> sent (after_pass p s i)"
    "switch_events i (pass_events p s) = []"
proof -
  let ?w = "sw_of s i"
  have i6: "i < 6" using assms(1) by (rule chord_switch_less)
  have d: "\<not> pending (after_debounce p s i) \<and> \<not> sent (after_debounce p s i)
       \<and> deb_ev (now p) (closed p i) i ?w = []"
  proof (cases "settles (now p) (closed p i) ?w")
    case False
    then show ?thesis using assms(2,3) i6 by (simp add: after_debounce_def deb_unsettled)
  next
    case True
    from deb_settled(1) [OF True, of i] deb_settled(2) [OF True] assms(4) i6
    have r: "closed p i = False"
      by (simp add: stable_after_pass after_debounce_def del: stable_sw_of)
    from True have "settles (now p) False ?w" by (simp add: r)
    from deb_release [OF this assms(1)] assms(2,3) i6 show ?thesis
      by (simp add: after_debounce_def r)
  qed
  then have c: "\<not> pending (after_chord p s i) \<and> \<not> sent (after_chord p s i)"
    by (simp add: after_chord_def)
  then show "\<not> pending (after_pass p s i)" "\<not> sent (after_pass p s i)"
    by (simp_all add: after_pass_def commit_rt_def commits_def)
  show "switch_events i (pass_events p s) = []"
    using d c i6 by (simp add: switch_events_pass commit_ev_def commits_def)
qed

lemma idle_run:
  assumes "is_chord_switch i"
  shows "\<not> pendingPress s i \<Longrightarrow> \<not> sentPress s i \<Longrightarrow> no_fresh_press atoi i ps s \<Longrightarrow>
         switch_events i (emitted s (run atoi ps s)) = []"
proof (induction ps arbitrary: s)
  case Nil
  then show ?case by simp
next
  case (Cons p ps)
  let ?s' = "loop atoi p s"
  from Cons.prems have e: "stable (after_pass p s i) \<longrightarrow> stable (sw_of s i)"
    and r: "no_fresh_press atoi i ps ?s'"
    by (simp_all add: loop_fields)
  from Cons.prems have f: "\<not> pending (sw_of s i)" "\<not> sent (sw_of s i)"
    by (simp_all add: sw_of_def)
  note st = idle_step [OF assms f e]
  have "\<not> pendingPress ?s' i" "\<not> sentPress ?s' i"
    using st(1,2) by (simp_all add: loop_fields)
  from Cons.IH [OF this r] st(3) show ?case
    by (simp add: emitted_run_Cons [simplified])
qed

text \<open>
  Claim C10. In a pass in which a chord fires (\<open>doBankDown\<close> or \<open>doBankUp\<close> is
  called from the chord block), \<open>pendingPress\<close> and \<open>sentPress\<close> of switches 3, 4, 5
  are all false afterwards. From then on, as long as switch \<open>i\<close> of the three makes no
  fresh debounced press, no \<open>handleSwitchEvent\<close> call is made for it: neither a release
  for a press that had been committed before the chord, nor anything else.
\<close>

theorem C10_chord_discards_individual_presses:
  assumes "ChordBankDown \<in> set (emitted s (loop atoi p s))
         \<or> ChordBankUp \<in> set (emitted s (loop atoi p s))"
      and "is_chord_switch i"
      and "no_fresh_press atoi i ps (loop atoi p s)"
  shows "\<not> pendingPress (loop atoi p s) 3 \<and> \<not> pendingPress (loop atoi p s) 4
       \<and> \<not> pendingPress (loop atoi p s) 5
       \<and> \<not> sentPress (loop atoi p s) 3 \<and> \<not> sentPress (loop atoi p s) 4
       \<and> \<not> sentPress (loop atoi p s) 5
       \<and> switch_events i (emitted (loop atoi p s) (run atoi ps (loop atoi p s))) = []"
proof -
  from assms(1) have f: "chord_fires p s"
    by (auto simp: emitted_loop chord_event_iff chord_fires_def)
  have c: "\<not> pendingPress (loop atoi p s) j \<and> \<not> sentPress (loop atoi p s) j"
    if "is_chord_switch j" for j
    using fired_clears [OF f that] by (simp add: loop_fields)
  have i: "\<not> pendingPress (loop atoi p s) i" "\<not> sentPress (loop atoi p s) i"
    using c [OF assms(2)] by simp_all
  from c [of 3] c [of 4] c [of 5] idle_run [OF assms(2) i assms(3)]
  show ?thesis by (simp add: is_chord_switch_def)
qed

lemma chord_part_append [simp]:
  "chord_part (xs @ ys) = chord_part xs @ chord_part ys" "chord_part [] = []"
  by (simp_all add: chord_part_def)

lemma chord_part_deb:
  "chord_part (deb_ev t r j w) = (if is_chord_switch j then deb_ev t r j w else [])"
  by (simp add: chord_part_def deb_ev_def)

lemma chord_part_commit: "is_chord_switch j \<Longrightarrow> chord_part (commit_ev t j w) = commit_ev t j w"
  by (simp add: chord_part_def commit_ev_def)

lemma chord_part_pass:
  "chord_part (pass_events p s) =
     deb_ev (now p) (closed p 3) 3 (sw_of s 3) @ deb_ev (now p) (closed p 4) 4 (sw_of s 4)
       @ deb_ev (now p) (closed p 5) 5 (sw_of s 5)
       @ (if joint45 p s \<and> \<not> chord45Latched s then [ChordBankDown] else [])
       @ (if joint56 p s \<and> \<not> chord56Latched s then [ChordBankUp] else [])
       @ (if \<not> (joint45 p s \<or> joint56 p s)
          then commit_ev (now p) 3 (after_chord p s 3) @ commit_ev (now p) 4 (after_chord p s 4)
            @ commit_ev (now p) 5 (after_chord p s 5)
          else [])"
proof -
  have e: "chord_part [ChordBankDown] = [ChordBankDown]" "chord_part [ChordBankUp] = [ChordBankUp]"
    by (simp_all add: chord_part_def)
  show ?thesis
    unfolding pass_events_def
    by (simp add: upt_0_6 chord_part_deb chord_part_commit is_chord_switch_def e)
qed

lemma view_pass_loop:
  "chord_view (loop atoi p s) = fst (view_pass p (chord_view s))"
  "chord_part (pass_events p s) = snd (view_pass p (chord_view s))"
proof -
  have c: "is_chord_switch 3" "is_chord_switch 4" "is_chord_switch 5"
    by (simp_all add: is_chord_switch_def)
  have d: "after_debounce p s 3 = deb_rt (now p) (closed p 3) 3 (sw_of s 3)"
    "after_debounce p s 4 = deb_rt (now p) (closed p 4) 4 (sw_of s 4)"
    "after_debounce p s 5 = deb_rt (now p) (closed p 5) 5 (sw_of s 5)"
    by (simp_all add: after_debounce_def)
  show "chord_view (loop atoi p s) = fst (view_pass p (chord_view s))"
    unfolding chord_view_def view_pass_def Let_def
    by (simp add: loop_sw loop_latches after_pass_def after_chord_def chord_fires_def
          joint45_def joint56_def c d)
  show "chord_part (pass_events p s) = snd (view_pass p (chord_view s))"
    unfolding chord_part_pass chord_view_def view_pass_def Let_def
    by (simp add: after_chord_def chord_fires_def joint45_def joint56_def c d)
qed

lemma view_run_run:
  "chord_view (run atoi ps s) = fst (view_run ps (chord_view s))
   \<and> chord_part (emitted s (run atoi ps s)) = snd (view_run ps (chord_view s))"
proof (induction ps arbitrary: s)
  case Nil
  then show ?case by simp
next
  case (Cons p ps)
  from Cons [of "loop atoi p s"] show ?case
    by (simp add: Let_def emitted_run_Cons [simplified] view_pass_loop)
qed

lemma switch_events_chord_part:
  "is_chord_switch i \<Longrightarrow> switch_events i (chord_part evs) = switch_events i evs"
proof (induction evs)
  case Nil
  then show ?case by simp
next
  case (Cons e evs)
  then show ?case by (cases e) (auto simp: switch_events_def chord_part_def)
qed

lemma chord_part_mem:
  "ChordBankDown \<in> set (chord_part evs) \<longleftrightarrow> ChordBankDown \<in> set evs"
  "ChordBankUp \<in> set (chord_part evs) \<longleftrightarrow> ChordBankUp \<in> set evs"
  by (simp_all add: chord_part_def)

lemma setup_pendingAt: "pendingAt (setup_sketch t pins e) = (\<lambda>i. 0)"
  by (simp add: setup_sketch_def Let_def upt_0_6 power_on_def)

lemma chord_view_boot:
  "chord_view (boot e) = (idle_switch, idle_switch, idle_switch, False, False)"
  by (simp add: chord_view_def boot_def sw_of_def setup_fields setup_pendingAt idle_switch_def
        no_switch_def)

subsection \<open>The chord latches\<close>

lemma deb_flags:
  assumes "is_chord_switch j" "\<not> pending (sw_of s j)" "\<not> sent (sw_of s j)"
  shows "\<not> sent (after_debounce p s j)"
    "pending (after_debounce p s j) \<Longrightarrow> \<not> stable (sw_of s j) \<and> stable (after_debounce p s j)"
    "deb_ev (now p) (closed p j) j (sw_of s j) = []"
proof -
  let ?w = "sw_of s j"
  have j6: "j < 6" using assms(1) by (rule chord_switch_less)
  have "\<not> sent (after_debounce p s j)
      \<and> (pending (after_debounce p s j) \<longrightarrow> \<not> stable ?w \<and> stable (after_debounce p s j))
      \<and> deb_ev (now p) (closed p j) j ?w = []"
  proof (cases "settles (now p) (closed p j) ?w")
    case False
    then show ?thesis using assms(2,3) j6 by (simp add: after_debounce_def deb_unsettled)
  next
    case True
    show ?thesis
    proof (cases "closed p j")
      case c: True
      with True have t: "settles (now p) True ?w" by simp
      from deb_press [OF t assms(1)] deb_settled(1) [OF t, of j] deb_settled(2) [OF t]
        assms(3) j6 c
      show ?thesis by (simp add: after_debounce_def del: stable_sw_of)
    next
      case c: False
      with True have t: "settles (now p) False ?w" by simp
      from deb_release [OF t assms(1)] assms(2,3) j6 c
      show ?thesis by (simp add: after_debounce_def)
    qed
  qed
  then show "\<not> sent (after_debounce p s j)"
    "pending (after_debounce p s j) \<Longrightarrow> \<not> stable ?w \<and> stable (after_debounce p s j)"
    "deb_ev (now p) (closed p j) j ?w = []"
    by simp_all
qed

lemma joint_no_commit:
  assumes "joint45 p s \<or> joint56 p s"
  shows "after_pass p s j = after_chord p s j"
    "switch_events i (pass_events p s) = (if i < 6 then deb_ev (now p) (closed p i) i (sw_of s i) else [])"
  using assms by (auto simp: after_pass_def switch_events_pass)

lemma chord_switch_cases: "is_chord_switch j \<longleftrightarrow> j = 3 \<or> j = 4 \<or> j = 5"
  unfolding is_chord_switch_def by arith

lemma chord_inv_fields:
  "chord_inv s \<longleftrightarrow>
     (chord45Latched s \<longrightarrow> stable (sw_of s 3) \<and> stable (sw_of s 4))
   \<and> (chord56Latched s \<longrightarrow> stable (sw_of s 4) \<and> stable (sw_of s 5))
   \<and> (chord45Latched s \<or> chord56Latched s \<longrightarrow>
        \<not> pending (sw_of s 3) \<and> \<not> pending (sw_of s 4) \<and> \<not> pending (sw_of s 5)
        \<and> \<not> sent (sw_of s 3) \<and> \<not> sent (sw_of s 4) \<and> \<not> sent (sw_of s 5))"
  unfolding chord_inv_def by (simp add: sw_of_def)

lemma chord_inv_clear:
  assumes "chord_inv s" "chord45Latched s \<or> chord56Latched s" "is_chord_switch k"
  shows "\<not> pending (sw_of s k) \<and> \<not> sent (sw_of s k)"
proof -
  from assms(1,2) have "\<not> pending (sw_of s 3) \<and> \<not> pending (sw_of s 4) \<and> \<not> pending (sw_of s 5)
        \<and> \<not> sent (sw_of s 3) \<and> \<not> sent (sw_of s 4) \<and> \<not> sent (sw_of s 5)"
    unfolding chord_inv_fields by blast
  with assms(3) show ?thesis unfolding chord_switch_cases by blast
qed

lemma latched_quiet:
  assumes inv: "chord_inv s" and nf: "\<not> chord_fires p s"
    and jt: "joint45 p s \<or> joint56 p s" and j: "is_chord_switch j"
  shows "\<not> pending (after_debounce p s j)" "\<not> sent (after_debounce p s j)"
proof -
  from nf jt have l: "chord45Latched s \<or> chord56Latched s"
    by (auto simp: chord_fires_def)
  have clr: "\<And>k. is_chord_switch k \<Longrightarrow> \<not> pending (sw_of s k) \<and> \<not> sent (sw_of s k)"
    using chord_inv_clear [OF inv l] .
  from deb_flags(1) [OF j] clr [OF j] show "\<not> sent (after_debounce p s j)" by blast
  have c: "is_chord_switch 3" "is_chord_switch 4" "is_chord_switch 5"
    by (simp_all add: is_chord_switch_def)
  have e: "pending (after_debounce p s k) \<Longrightarrow> \<not> stable (sw_of s k) \<and> stable (after_debounce p s k)"
    if "is_chord_switch k" for k
    using deb_flags(2) [OF that] clr [OF that] by blast
  have j345: "j = 3 \<or> j = 4 \<or> j = 5" using j unfolding chord_switch_cases .
  show "\<not> pending (after_debounce p s j)"
  proof
    assume p: "pending (after_debounce p s j)"
    from inv have i1: "chord45Latched s \<longrightarrow> stable (sw_of s 3) \<and> stable (sw_of s 4)"
      and i2: "chord56Latched s \<longrightarrow> stable (sw_of s 4) \<and> stable (sw_of s 5)"
      unfolding chord_inv_fields by blast+
    from nf have n1: "joint45 p s \<longrightarrow> chord45Latched s" and n2: "joint56 p s \<longrightarrow> chord56Latched s"
      by (auto simp: chord_fires_def)
    from j345 p e [OF c(1)] e [OF c(2)] e [OF c(3)]
    have "(\<not> stable (sw_of s 3) \<and> stable (after_debounce p s 3))
        \<or> (\<not> stable (sw_of s 4) \<and> stable (after_debounce p s 4))
        \<or> (\<not> stable (sw_of s 5) \<and> stable (after_debounce p s 5))" by blast
    with i1 i2 n1 n2 jt show False
      unfolding joint45_def joint56_def by blast
  qed
qed

lemma chord_inv_loop: "chord_inv s \<Longrightarrow> chord_inv (loop atoi p s)"
proof -
  assume inv: "chord_inv s"
  have st: "stable (sw_of (loop atoi p s) k) = stable (after_debounce p s k)" for k
    by (simp add: loop_sw stable_after_pass del: stable_sw_of)
  have clr: "\<not> pending (sw_of (loop atoi p s) j) \<and> \<not> sent (sw_of (loop atoi p s) j)"
    if jt: "joint45 p s \<or> joint56 p s" and j: "is_chord_switch j" for j
  proof (cases "chord_fires p s")
    case True
    from fired_clears [OF True j] show ?thesis by (simp add: loop_sw)
  next
    case False
    from latched_quiet [OF inv False jt j] show ?thesis
      by (simp add: loop_sw joint_no_commit(1) [OF jt] after_chord_def False)
  qed
  have c: "is_chord_switch 3" "is_chord_switch 4" "is_chord_switch 5"
    by (simp_all add: is_chord_switch_def)
  have "joint45 p s \<or> joint56 p s \<longrightarrow>
        \<not> pending (sw_of (loop atoi p s) 3) \<and> \<not> pending (sw_of (loop atoi p s) 4)
        \<and> \<not> pending (sw_of (loop atoi p s) 5) \<and> \<not> sent (sw_of (loop atoi p s) 3)
        \<and> \<not> sent (sw_of (loop atoi p s) 4) \<and> \<not> sent (sw_of (loop atoi p s) 5)"
    using clr [OF _ c(1)] clr [OF _ c(2)] clr [OF _ c(3)] by blast
  then show ?thesis
    unfolding chord_inv_fields [of "loop atoi p s"] loop_latches st joint45_def joint56_def
    by blast
qed

lemma chord_inv_setup: "chord_inv (setup_sketch t pins e)"
  by (simp add: chord_inv_def setup_fields)

lemma chord_inv_run: "chord_inv s \<Longrightarrow> chord_inv (run atoi ps s)"
  by (induction ps arbitrary: s) (simp_all add: chord_inv_loop)

lemma count_list_append': "count_list (xs @ ys) c = count_list xs c + count_list ys c"
  by (induction xs) simp_all

lemma count_chord_events:
  "count_list (pass_events p s) ChordBankDown = (if joint45 p s \<and> \<not> chord45Latched s then 1 else 0)"
  "count_list (pass_events p s) ChordBankUp = (if joint56 p s \<and> \<not> chord56Latched s then 1 else 0)"
proof -
  have d: "ChordBankDown \<notin> set (deb_ev t r j w)" "ChordBankUp \<notin> set (deb_ev t r j w)"
    for t r j w by (simp_all add: deb_ev_def)
  have c: "ChordBankDown \<notin> set (commit_ev t j w)" "ChordBankUp \<notin> set (commit_ev t j w)"
    for t j w by (simp_all add: commit_ev_def)
  have 1: "count_list (concat (map (\<lambda>j. deb_ev (now p) (closed p j) j (sw_of s j)) [0..<6])) e = 0"
    if "e = ChordBankDown \<or> e = ChordBankUp" for e
    using that d by (auto simp: count_list_0_iff)
  have 2: "count_list (concat (map (\<lambda>j. commit_ev (now p) j (after_chord p s j)) [3, 4, 5])) e = 0"
    if "e = ChordBankDown \<or> e = ChordBankUp" for e
    using that c by (auto simp: count_list_0_iff)
  show "count_list (pass_events p s) ChordBankDown = (if joint45 p s \<and> \<not> chord45Latched s then 1 else 0)"
    unfolding pass_events_def count_list_append'
    by (simp only: 1 [OF disjI1 [OF refl]] 2 [OF disjI1 [OF refl]]) (simp add: count_list_0_iff c)
  show "count_list (pass_events p s) ChordBankUp = (if joint56 p s \<and> \<not> chord56Latched s then 1 else 0)"
    unfolding pass_events_def count_list_append'
    by (simp only: 1 [OF disjI2 [OF refl]] 2 [OF disjI2 [OF refl]]) (simp add: count_list_0_iff c)
qed

lemma pressed_no_deb_event:
  assumes "is_chord_switch i" "stable (after_debounce p s i)"
  shows "deb_ev (now p) (closed p i) i (sw_of s i) = []"
proof (cases "settles (now p) (closed p i) (sw_of s i)")
  case False
  then show ?thesis by (simp add: deb_unsettled)
next
  case True
  from deb_settled(1) [OF True, of i] assms chord_switch_less [OF assms(1)]
  have r: "closed p i" by (simp add: after_debounce_def)
  with True have "settles (now p) True (sw_of s i)" by simp
  from deb_press(4) [OF this assms(1)] r show ?thesis by simp
qed

lemma joint_members_silent:
  "joint45 p s \<Longrightarrow> switch_events 3 (pass_events p s) = [] \<and> switch_events 4 (pass_events p s) = []"
  "joint56 p s \<Longrightarrow> switch_events 4 (pass_events p s) = [] \<and> switch_events 5 (pass_events p s) = []"
proof -
  have c: "is_chord_switch 3" "is_chord_switch 4" "is_chord_switch 5"
    by (simp_all add: is_chord_switch_def)
  show "joint45 p s \<Longrightarrow> switch_events 3 (pass_events p s) = [] \<and> switch_events 4 (pass_events p s) = []"
    using pressed_no_deb_event [OF c(1), of p s] pressed_no_deb_event [OF c(2), of p s]
    by (simp add: joint_no_commit(2) joint45_def)
  show "joint56 p s \<Longrightarrow> switch_events 4 (pass_events p s) = [] \<and> switch_events 5 (pass_events p s) = []"
    using pressed_no_deb_event [OF c(2), of p s] pressed_no_deb_event [OF c(3), of p s]
    by (simp add: joint_no_commit(2) joint56_def)
qed

lemma latched_third_silent:
  assumes "chord_inv s" "chord45Latched s \<or> chord56Latched s" "joint45 p s \<or> joint56 p s"
    "is_chord_switch i"
  shows "switch_events i (pass_events p s) = []"
proof -
  from chord_inv_clear [OF assms(1,2,4)]
  have "\<not> pending (sw_of s i)" "\<not> sent (sw_of s i)" by simp_all
  from deb_flags(3) [OF assms(4) this] chord_switch_less [OF assms(4)]
  show ?thesis by (simp add: joint_no_commit(2) [OF assms(3)])
qed

text \<open>
  Claim C4, amended. Let \<open>s1\<close> and \<open>s2\<close> be the states after two consecutive passes of
  \<open>loop()\<close>. If switches 3 and 4 are both stable-pressed after the second pass, that pass
  made no \<open>handleSwitchEvent\<close> call for switch 3 or 4; if they were already both
  stable-pressed after the first pass, it made none for switch 5 either. The second pass
  calls \<open>doBankDown\<close> from the chord block exactly once if the pair is jointly
  stable-pressed after it and was not after the first pass, and not at all otherwise: one
  bank change on entering the joint state, none while it lasts, none until the pair has
  stopped being jointly pressed and is jointly pressed again. The same holds for switches
  4 and 5 with \<open>doBankUp\<close>, switch 3 being the third switch. In the pass in which the
  pair becomes jointly pressed the third switch can still get a call (see the
  counterexample below).
\<close>

theorem C4_chord_latch:
  fixes atoi p q s s1 s2
  defines "s1 \<equiv> loop atoi p s" and "s2 \<equiv> loop atoi q s1"
  assumes "chord_inv s"
  shows "(stableState s2 3 \<and> stableState s2 4 \<longrightarrow>
            switch_events 3 (emitted s1 s2) = [] \<and> switch_events 4 (emitted s1 s2) = [])
       \<and> (stableState s1 3 \<and> stableState s1 4 \<and> stableState s2 3 \<and> stableState s2 4 \<longrightarrow>
            switch_events 5 (emitted s1 s2) = [])
       \<and> count_list (emitted s1 s2) ChordBankDown =
            (if stableState s2 3 \<and> stableState s2 4 \<and> \<not> (stableState s1 3 \<and> stableState s1 4)
             then 1 else 0)
       \<and> (stableState s2 4 \<and> stableState s2 5 \<longrightarrow>
            switch_events 4 (emitted s1 s2) = [] \<and> switch_events 5 (emitted s1 s2) = [])
       \<and> (stableState s1 4 \<and> stableState s1 5 \<and> stableState s2 4 \<and> stableState s2 5 \<longrightarrow>
            switch_events 3 (emitted s1 s2) = [])
       \<and> count_list (emitted s1 s2) ChordBankUp =
            (if stableState s2 4 \<and> stableState s2 5 \<and> \<not> (stableState s1 4 \<and> stableState s1 5)
             then 1 else 0)"
proof -
  have inv1: "chord_inv s1" unfolding s1_def using assms(3) by (rule chord_inv_loop)
  have l: "chord45Latched s1 = (stableState s1 3 \<and> stableState s1 4)"
    "chord56Latched s1 = (stableState s1 4 \<and> stableState s1 5)"
    unfolding s1_def by (simp_all add: loop_latches joint_stable [of p s atoi])
  have j: "joint45 q s1 = (stableState s2 3 \<and> stableState s2 4)"
    "joint56 q s1 = (stableState s2 4 \<and> stableState s2 5)"
    unfolding s2_def by (simp_all add: joint_stable [of q s1 atoi])
  have e: "emitted s1 s2 = pass_events q s1" unfolding s2_def by (rule emitted_loop)
  have c: "is_chord_switch 3" "is_chord_switch 4" "is_chord_switch 5"
    by (simp_all add: is_chord_switch_def)
  have a: "stableState s2 3 \<and> stableState s2 4 \<longrightarrow>
            switch_events 3 (emitted s1 s2) = [] \<and> switch_events 4 (emitted s1 s2) = []"
    using joint_members_silent(1) [of q s1] by (simp add: e j)
  have a': "stableState s2 4 \<and> stableState s2 5 \<longrightarrow>
            switch_events 4 (emitted s1 s2) = [] \<and> switch_events 5 (emitted s1 s2) = []"
    using joint_members_silent(2) [of q s1] by (simp add: e j)
  have b: "stableState s1 3 \<and> stableState s1 4 \<and> stableState s2 3 \<and> stableState s2 4 \<longrightarrow>
            switch_events 5 (emitted s1 s2) = []"
    using latched_third_silent [OF inv1 _ _ c(3), of q] by (simp add: e j l)
  have b': "stableState s1 4 \<and> stableState s1 5 \<and> stableState s2 4 \<and> stableState s2 5 \<longrightarrow>
            switch_events 3 (emitted s1 s2) = []"
    using latched_third_silent [OF inv1 _ _ c(1), of q] by (simp add: e j l)
  have n: "count_list (emitted s1 s2) ChordBankDown =
            (if stableState s2 3 \<and> stableState s2 4 \<and> \<not> (stableState s1 3 \<and> stableState s1 4)
             then 1 else 0)"
    "count_list (emitted s1 s2) ChordBankUp =
            (if stableState s2 4 \<and> stableState s2 5 \<and> \<not> (stableState s1 4 \<and> stableState s1 5)
             then 1 else 0)"
    by (simp_all add: e count_chord_events j l)
  from a a' b b' n show ?thesis by blast
qed

subsection \<open>Running the sketch on concrete polls\<close>

lemmas view_eval =
  view_pass_def Let_def deb_rt_def deb_ev_def settles_def commit_rt_def commit_ev_def
  commits_def is_chord_switch_def poll_at_def idle_switch_def

lemma view_obs:
  "stableState s 3 = stable (fst (chord_view s))"
  "stableState s 4 = stable (fst (snd (chord_view s)))"
  "stableState s 5 = stable (fst (snd (snd (chord_view s))))"
  "pendingPress s 3 = pending (fst (chord_view s))"
  "pendingPress s 4 = pending (fst (snd (chord_view s)))"
  "pendingPress s 5 = pending (fst (snd (snd (chord_view s))))"
  "sentPress s 3 = sent (fst (chord_view s))"
  "sentPress s 4 = sent (fst (snd (chord_view s)))"
  "sentPress s 5 = sent (fst (snd (snd (chord_view s))))"
  by (simp_all add: chord_view_def sw_of_def)

lemma count_chord_part:
  "count_list (chord_part evs) ChordBankDown = count_list evs ChordBankDown"
  "count_list (chord_part evs) ChordBankUp = count_list evs ChordBankUp"
  by (induction evs) (simp_all add: chord_part_def)

lemma view_of_run:
  "chord_view (run atoi ps s) = fst (view_run ps (chord_view s))"
  "chord_view (loop atoi p s) = fst (view_pass p (chord_view s))"
  using view_run_run [of atoi ps s] by (simp_all add: view_pass_loop)

lemma view_of_emitted:
  "is_chord_switch i \<Longrightarrow>
   switch_events i (emitted s (run atoi ps s)) = switch_events i (snd (view_run ps (chord_view s)))"
  "is_chord_switch i \<Longrightarrow>
   switch_events i (emitted s (loop atoi p s)) = switch_events i (snd (view_pass p (chord_view s)))"
  "ChordBankDown \<in> set (emitted s (loop atoi p s))
     \<longleftrightarrow> ChordBankDown \<in> set (snd (view_pass p (chord_view s)))"
  "ChordBankUp \<in> set (emitted s (loop atoi p s))
     \<longleftrightarrow> ChordBankUp \<in> set (snd (view_pass p (chord_view s)))"
  "count_list (emitted s (loop atoi p s)) ChordBankDown
     = count_list (snd (view_pass p (chord_view s))) ChordBankDown"
  "count_list (emitted s (loop atoi p s)) ChordBankUp
     = count_list (snd (view_pass p (chord_view s))) ChordBankUp"
proof -
  have r: "chord_part (emitted s (run atoi ps s)) = snd (view_run ps (chord_view s))"
    using view_run_run [of atoi ps s] by simp
  have l: "chord_part (emitted s (loop atoi p s)) = snd (view_pass p (chord_view s))"
    by (simp add: emitted_loop view_pass_loop)
  show "is_chord_switch i \<Longrightarrow>
    switch_events i (emitted s (run atoi ps s)) = switch_events i (snd (view_run ps (chord_view s)))"
    using switch_events_chord_part [of i "emitted s (run atoi ps s)"] by (simp add: r)
  show "is_chord_switch i \<Longrightarrow>
    switch_events i (emitted s (loop atoi p s)) = switch_events i (snd (view_pass p (chord_view s)))"
    using switch_events_chord_part [of i "emitted s (loop atoi p s)"] by (simp add: l)
  show "ChordBankDown \<in> set (emitted s (loop atoi p s))
     \<longleftrightarrow> ChordBankDown \<in> set (snd (view_pass p (chord_view s)))"
    using chord_part_mem(1) [of "emitted s (loop atoi p s)"] by (simp add: l)
  show "ChordBankUp \<in> set (emitted s (loop atoi p s))
     \<longleftrightarrow> ChordBankUp \<in> set (snd (view_pass p (chord_view s)))"
    using chord_part_mem(2) [of "emitted s (loop atoi p s)"] by (simp add: l)
  show "count_list (emitted s (loop atoi p s)) ChordBankDown
     = count_list (snd (view_pass p (chord_view s))) ChordBankDown"
    using count_chord_part(1) [of "emitted s (loop atoi p s)"] by (simp add: l)
  show "count_list (emitted s (loop atoi p s)) ChordBankUp
     = count_list (snd (view_pass p (chord_view s))) ChordBankUp"
    using count_chord_part(2) [of "emitted s (loop atoi p s)"] by (simp add: l)
qed

lemma chord_switches: "is_chord_switch 3" "is_chord_switch 4" "is_chord_switch 5"
  by (simp_all add: is_chord_switch_def)

lemma switch_events_Cons:
  "switch_events i (e # es) = (if for_switch i e then e # switch_events i es else switch_events i es)"
  by (simp add: switch_events_def)

lemmas run_eval =
  view_obs view_of_run view_of_emitted chord_view_boot chord_switches view_eval switch_events_Cons

text \<open>
  Three runs from power-up to which the theorem applies: the pair 3 and 4 becoming jointly
  pressed; switch 5 joining the held pair 3 and 4; switch 3 joining the held pair 4 and 5.
\<close>

theorem C4_chord_latch_witness:
  "(let s0 = boot erased_image;
        s1 = loop atoi_ref (poll_at 0 [3, 4]) s0;
        s2 = loop atoi_ref (poll_at 35 [3, 4]) s1
    in chord_inv s0 \<and> \<not> stableState s1 3 \<and> stableState s2 3 \<and> stableState s2 4
       \<and> switch_events 3 (emitted s1 s2) = [] \<and> switch_events 4 (emitted s1 s2) = []
       \<and> count_list (emitted s1 s2) ChordBankDown = 1)
 \<and> (let s0 = run atoi_ref pair_45 (boot erased_image);
        s1 = loop atoi_ref (poll_at 100 [3, 4, 5]) s0;
        s2 = loop atoi_ref (poll_at 135 [3, 4, 5]) s1
    in chord_inv s0 \<and> stableState s1 3 \<and> stableState s1 4 \<and> \<not> stableState s1 5
       \<and> stableState s2 3 \<and> stableState s2 4 \<and> stableState s2 5
       \<and> switch_events 3 (emitted s1 s2) = [] \<and> switch_events 4 (emitted s1 s2) = []
       \<and> switch_events 5 (emitted s1 s2) = []
       \<and> count_list (emitted s1 s2) ChordBankDown = 0
       \<and> count_list (emitted s1 s2) ChordBankUp = 1)
 \<and> (let s0 = run atoi_ref pair_56 (boot erased_image);
        s1 = loop atoi_ref (poll_at 100 [3, 4, 5]) s0;
        s2 = loop atoi_ref (poll_at 135 [3, 4, 5]) s1
    in chord_inv s0 \<and> stableState s1 4 \<and> stableState s1 5 \<and> \<not> stableState s1 3
       \<and> stableState s2 3 \<and> stableState s2 4 \<and> stableState s2 5
       \<and> switch_events 3 (emitted s1 s2) = [] \<and> switch_events 4 (emitted s1 s2) = []
       \<and> switch_events 5 (emitted s1 s2) = []
       \<and> count_list (emitted s1 s2) ChordBankDown = 1
       \<and> count_list (emitted s1 s2) ChordBankUp = 0)"
proof -
  let ?a0 = "boot erased_image"
  let ?a1 = "loop atoi_ref (poll_at 0 [3, 4]) ?a0"
  let ?a2 = "loop atoi_ref (poll_at 35 [3, 4]) ?a1"
  let ?b0 = "run atoi_ref pair_45 (boot erased_image)"
  let ?b1 = "loop atoi_ref (poll_at 100 [3, 4, 5]) ?b0"
  let ?b2 = "loop atoi_ref (poll_at 135 [3, 4, 5]) ?b1"
  let ?c0 = "run atoi_ref pair_56 (boot erased_image)"
  let ?c1 = "loop atoi_ref (poll_at 100 [3, 4, 5]) ?c0"
  let ?c2 = "loop atoi_ref (poll_at 135 [3, 4, 5]) ?c1"
  have ia: "chord_inv ?a0" unfolding boot_def by (rule chord_inv_setup)
  have ib: "chord_inv ?b0" unfolding boot_def by (rule chord_inv_run [OF chord_inv_setup])
  have ic: "chord_inv ?c0" unfolding boot_def by (rule chord_inv_run [OF chord_inv_setup])
  have a: "\<not> stableState ?a1 3" "stableState ?a2 3" "stableState ?a2 4"
    by (simp_all add: run_eval del: run.simps)
  have b: "stableState ?b1 3" "stableState ?b1 4" "\<not> stableState ?b1 5"
    "stableState ?b2 3" "stableState ?b2 4" "stableState ?b2 5"
    by (simp_all add: run_eval pair_45_def del: run.simps)
  have c: "stableState ?c1 4" "stableState ?c1 5" "\<not> stableState ?c1 3"
    "stableState ?c2 3" "stableState ?c2 4" "stableState ?c2 5"
    by (simp_all add: run_eval pair_56_def del: run.simps)
  from ia ib ic a b c
       C4_chord_latch [OF ia, where atoi = atoi_ref and p = "poll_at 0 [3, 4]" and q = "poll_at 35 [3, 4]"]
       C4_chord_latch [OF ib, where atoi = atoi_ref and p = "poll_at 100 [3, 4, 5]" and q = "poll_at 135 [3, 4, 5]"]
       C4_chord_latch [OF ic, where atoi = atoi_ref and p = "poll_at 100 [3, 4, 5]" and q = "poll_at 135 [3, 4, 5]"]
  show ?thesis unfolding Let_def by simp
qed

text \<open>
  The claim as stated also excludes calls for switch 5 while 3 and 4 are both
  stable-pressed. That fails in the pass in which the pair becomes jointly pressed:
  switch 5, whose press had been committed, is released at the moment 3 and 4 are pressed,
  and its release is dispatched by the debounce loop in the same pass in which
  \<open>stableState[3]\<close> and \<open>stableState[4]\<close> become true and the chord fires.
\<close>

theorem C4_third_switch_dispatched:
  "(let s = run atoi_ref committed_5 (boot erased_image);
        s' = loop atoi_ref (poll_at 235 [3, 4]) s
    in switch_events 5 (emitted (boot erased_image) s) = [SwitchEvent 5 True]
       \<and> stableState s' 3 \<and> stableState s' 4
       \<and> switch_events 5 (emitted s s') = [SwitchEvent 5 False]
       \<and> count_list (emitted s s') ChordBankDown = 1)"
  unfolding Let_def
  by (simp add: run_eval committed_5_def del: run.simps)

text \<open>
  A run to which the theorem on claim C10 applies: switch 3 is held until its press has
  been dispatched, switch 4 joins and the chord fires, then both are released. No release
  of switch 3 is dispatched.
\<close>

theorem C10_chord_discards_individual_presses_witness:
  "(let s = run atoi_ref committed_3 (boot erased_image);
        s' = loop atoi_ref (poll_at 235 [3, 4]) s
    in switch_events 3 (emitted (boot erased_image) s) = [SwitchEvent 3 True]
       \<and> sentPress s 3
       \<and> ChordBankDown \<in> set (emitted s s')
       \<and> is_chord_switch 3
       \<and> no_fresh_press atoi_ref 3 release_all s'
       \<and> \<not> sentPress s' 3
       \<and> \<not> stableState (run atoi_ref release_all s') 3
       \<and> switch_events 3 (emitted s' (run atoi_ref release_all s')) = [])"
proof -
  let ?s = "run atoi_ref committed_3 (boot erased_image)"
  let ?p = "poll_at 235 [3, 4]"
  let ?s' = "loop atoi_ref ?p ?s"
  have 1: "ChordBankDown \<in> set (emitted ?s ?s') \<or> ChordBankUp \<in> set (emitted ?s ?s')"
    by (simp add: run_eval committed_3_def del: run.simps)
  have 2: "is_chord_switch 3" by (simp add: is_chord_switch_def)
  have 3: "no_fresh_press atoi_ref 3 release_all ?s'"
    by (simp add: run_eval committed_3_def release_all_def del: run.simps)
  have 4: "switch_events 3 (emitted (boot erased_image) ?s) = [SwitchEvent 3 True]"
    "sentPress ?s 3" "ChordBankDown \<in> set (emitted ?s ?s')"
    "\<not> stableState (run atoi_ref release_all ?s') 3"
    by (simp_all add: run_eval committed_3_def release_all_def del: run.simps)
  from 2 3 4 C10_chord_discards_individual_presses [OF 1 2 3]
  show ?thesis unfolding Let_def by simp
qed

end
